theory Spec2Isabelle
  imports Complex_Main "HOL-Library.Word" "HOL-Library.Multiset" "HOL-Library.Monad_Syntax"
begin

unbundle bit_operations_syntax

chapter \<open>GlyphGL: the glyph atlas and the UTF-8 decoders\<close>

text \<open>
  A shallow embedding of \<^verbatim>\<open>glyph_atlas.h\<close> and of the UTF-8 decoder of
  \<^verbatim>\<open>glyph.h\<close>. A C \<^verbatim>\<open>int\<close> whose bit pattern matters is a \<open>32 word\<close>
  read through \<open>sint\<close>; sizes, counts and pixel coordinates, which stay far from the ends
  of the \<^verbatim>\<open>int\<close> range, are \<open>int\<close> and \<open>nat\<close>. A C string is the list of
  its bytes before the terminating NUL.
\<close>

section \<open>\<^verbatim>\<open>glyph_atlas__next_pow2\<close>\<close>

text \<open>
  The source decrements, ors the value with itself shifted right by 1, 2, 4, 8 and 16, and
  increments. \<^verbatim>\<open>>>\<close> on an \<^verbatim>\<open>int\<close> is the arithmetic shift, \<open>signed_drop_bit\<close>.
\<close>

definition glyph_atlas__next_pow2 :: "32 word \<Rightarrow> 32 word" where
  "glyph_atlas__next_pow2 v0 =
     (let v = v0 - 1;
          v = v OR signed_drop_bit 1 v;
          v = v OR signed_drop_bit 2 v;
          v = v OR signed_drop_bit 4 v;
          v = v OR signed_drop_bit 8 v;
          v = v OR signed_drop_bit 16 v;
          v = v + 1
      in v)"

text \<open>One fill step of the source, named for the proofs.\<close>

definition fill_step :: "nat \<Rightarrow> 32 word \<Rightarrow> 32 word" where
  "fill_step k v = v OR signed_drop_bit k v"

lemma next_pow2_fill:
  "glyph_atlas__next_pow2 v = fill_step 16 (fill_step 8 (fill_step 4 (fill_step 2 (fill_step 1 (v - 1))))) + 1"
  by (simp add: glyph_atlas__next_pow2_def fill_step_def Let_def)

lemma fill_step_bits:
  assumes top: "\<not> bit w 31"
    and w: "\<And>n. bit w n \<longleftrightarrow> (\<exists>j<m. bit v (n + j))"
    and m: "0 < m" "m < 32"
  shows "bit (fill_step m w) n \<longleftrightarrow> (\<exists>j<2 * m. bit v (n + j))"
    and "\<not> bit (fill_step m w) 31"
proof -
  have sd: "bit (signed_drop_bit m w) n \<longleftrightarrow> bit w (m + n)" for n
    using top by (auto simp: bit_signed_drop_bit_iff dest: bit_imp_le_length)
  have "bit (fill_step m w) n \<longleftrightarrow> (\<exists>j<m. bit v (n + j)) \<or> (\<exists>j<m. bit v (m + n + j))"
    by (simp add: fill_step_def bit_or_iff sd w)
  also have "\<dots> \<longleftrightarrow> (\<exists>j<2 * m. bit v (n + j))"
  proof
    assume "(\<exists>j<m. bit v (n + j)) \<or> (\<exists>j<m. bit v (m + n + j))"
    then show "\<exists>j<2 * m. bit v (n + j)"
    proof
      assume "\<exists>j<m. bit v (n + j)"
      then obtain j where "j < m" "bit v (n + j)" by blast
      then show ?thesis by (intro exI [of _ j]) simp
    next
      assume "\<exists>j<m. bit v (m + n + j)"
      then obtain j where "j < m" "bit v (m + n + j)" by blast
      then show ?thesis by (intro exI [of _ "m + j"]) (simp add: ac_simps)
    qed
  next
    assume "\<exists>j<2 * m. bit v (n + j)"
    then obtain j where j: "j < 2 * m" "bit v (n + j)" by blast
    show "(\<exists>j<m. bit v (n + j)) \<or> (\<exists>j<m. bit v (m + n + j))"
    proof (cases "j < m")
      case True
      with j show ?thesis by blast
    next
      case False
      with j have "j - m < m" "bit v (m + n + (j - m))" by (simp_all add: ac_simps)
      then show ?thesis by blast
    qed
  qed
  finally show "bit (fill_step m w) n \<longleftrightarrow> (\<exists>j<2 * m. bit v (n + j))" .
  show "\<not> bit (fill_step m w) 31"
    using top sd [of 31] m by (auto simp: fill_step_def bit_or_iff dest: bit_imp_le_length)
qed

lemma fill_all_bits:
  assumes top: "\<not> bit u 31"
  shows "bit (fill_step 16 (fill_step 8 (fill_step 4 (fill_step 2 (fill_step 1 u))))) n
           \<longleftrightarrow> (\<exists>j<32. bit u (n + j))"
proof -
  let ?w1 = "fill_step 1 u"
  let ?w2 = "fill_step 2 ?w1"
  let ?w4 = "fill_step 4 ?w2"
  let ?w8 = "fill_step 8 ?w4"
  have b0: "bit u n \<longleftrightarrow> (\<exists>j<1. bit u (n + j))" for n by simp
  have b1: "bit ?w1 n \<longleftrightarrow> (\<exists>j<2. bit u (n + j))" and t1: "\<not> bit ?w1 31" for n
    using fill_step_bits [where m = 1 and v = u, OF top b0] by simp_all
  have b2: "bit ?w2 n \<longleftrightarrow> (\<exists>j<4. bit u (n + j))" and t2: "\<not> bit ?w2 31" for n
    using fill_step_bits [where m = 2 and v = u, OF t1 b1] by simp_all
  have b4: "bit ?w4 n \<longleftrightarrow> (\<exists>j<8. bit u (n + j))" and t4: "\<not> bit ?w4 31" for n
    using fill_step_bits [where m = 4 and v = u, OF t2 b2] by simp_all
  have b8: "bit ?w8 n \<longleftrightarrow> (\<exists>j<16. bit u (n + j))" and t8: "\<not> bit ?w8 31" for n
    using fill_step_bits [where m = 8 and v = u, OF t4 b4] by simp_all
  show ?thesis
    using fill_step_bits(1) [where m = 16 and v = u, OF t8 b8] by simp
qed

lemma nat_less_pow2_bits: "(x::nat) < 2 ^ k \<longleftrightarrow> (\<forall>n\<ge>k. \<not> bit x n)"
proof -
  have "x < 2 ^ k \<longleftrightarrow> take_bit k x = x"
    by (simp add: take_bit_nat_eq_self_iff)
  also have "\<dots> \<longleftrightarrow> (\<forall>n. bit (take_bit k x) n = bit x n)"
    by (simp only: bit_eq_iff [of "take_bit k x" x] possible_bit_nat simp_thms)
  also have "\<dots> \<longleftrightarrow> (\<forall>n. (n < k \<and> bit x n) = bit x n)"
    by (simp only: bit_take_bit_iff)
  also have "\<dots> \<longleftrightarrow> (\<forall>n\<ge>k. \<not> bit x n)"
  proof
    assume a: "\<forall>n. (n < k \<and> bit x n) = bit x n"
    show "\<forall>n\<ge>k. \<not> bit x n"
    proof (intro allI impI notI)
      fix n assume "k \<le> n" "bit x n"
      with a have "n < k" by blast
      with \<open>k \<le> n\<close> show False by simp
    qed
  next
    assume a: "\<forall>n\<ge>k. \<not> bit x n"
    show "\<forall>n. (n < k \<and> bit x n) = bit x n"
    proof
      fix n show "(n < k \<and> bit x n) = bit x n"
        using a by (cases "k \<le> n") auto
    qed
  qed
  finally show ?thesis .
qed

lemma sint_nonneg_uint:
  fixes v :: "32 word"
  assumes "0 \<le> sint v"
  shows "uint v = sint v"
proof -
  have "sint v < 2 ^ 32"
    using sint_lt [of v] by simp
  then have "take_bit 32 (sint v) = sint v"
    using assms by (simp add: take_bit_int_eq_self)
  then show ?thesis
    using uint_sint [of v] by simp
qed

lemma next_pow2_mask:
  fixes v :: "32 word"
  assumes lo: "1 \<le> sint v" and hi: "sint v \<le> 2 ^ 30"
  defines "x \<equiv> unat (v - 1)"
  defines "k \<equiv> (LEAST k. x < 2 ^ k)"
  shows "k \<le> 30" and "x < 2 ^ k" and "\<And>j. x < 2 ^ j \<Longrightarrow> k \<le> j"
    and "glyph_atlas__next_pow2 v = 2 ^ k" and "sint v = int x + 1"
proof -
  have uv: "uint v = sint v"
    using lo by (simp add: sint_nonneg_uint)
  then have nz: "v \<noteq> 0"
    using lo by auto
  have unat_v: "int (unat v) = sint v"
    using uv by simp
  have x_eq: "int x = sint v - 1"
  proof -
    have "x = unat v - 1" by (simp add: x_def unat_minus_one [OF nz])
    moreover have "1 \<le> unat v" using unat_v lo by linarith
    ultimately show ?thesis using unat_v by linarith
  qed
  then show sx: "sint v = int x + 1" by simp
  have x30: "x < 2 ^ 30"
  proof -
    have "int x < 2 ^ 30" using x_eq hi by simp
    then show ?thesis by simp
  qed
  show k30: "k \<le> 30"
    unfolding k_def using x30 by (rule Least_le)
  show xk: "x < 2 ^ k"
    unfolding k_def using x30 by (rule LeastI)
  show least: "k \<le> j" if "x < 2 ^ j" for j
    unfolding k_def using that by (rule Least_le)
  let ?u = "v - 1"
  have bu: "bit ?u n \<longleftrightarrow> bit x n" for n
    by (simp add: x_def bit_unsigned_iff)
  have hi_bits: "\<not> bit x n" if "k \<le> n" for n
    using xk that by (simp add: nat_less_pow2_bits)
  have top: "\<not> bit ?u 31"
    using hi_bits [of 31] k30 by (simp add: bu)
  have low_bits: "\<exists>j<32. bit x (n + j)" if "n < k" for n
  proof -
    from that have "\<not> x < 2 ^ (k - 1)"
      using least [of "k - 1"] by auto
    then obtain m where m: "k - 1 \<le> m" "bit x m"
      by (auto simp: nat_less_pow2_bits)
    with hi_bits [of m] have "m = k - 1" by (cases "k \<le> m") auto
    with m that k30 have "k - 1 - n < 32" "bit x (n + (k - 1 - n))" by simp_all
    then show ?thesis by blast
  qed
  let ?s = "fill_step 16 (fill_step 8 (fill_step 4 (fill_step 2 (fill_step 1 ?u))))"
  have "bit ?s n \<longleftrightarrow> n < k" for n
  proof -
    have "bit ?s n \<longleftrightarrow> (\<exists>j<32. bit x (n + j))"
      by (simp only: fill_all_bits [OF top] bu)
    also have "\<dots> \<longleftrightarrow> n < k"
    proof
      assume "\<exists>j<32. bit x (n + j)"
      then obtain j where "bit x (n + j)" by blast
      with hi_bits [of "n + j"] have "n + j < k" by (cases "k \<le> n + j") auto
      then show "n < k" by simp
    next
      assume "n < k"
      then show "\<exists>j<32. bit x (n + j)" by (rule low_bits)
    qed
    finally show ?thesis .
  qed
  then have "bit ?s n = bit (mask k :: 32 word) n" if "n < 32" for n
    using k30 that by (simp only: bit_mask_iff) simp
  then have "?s = mask k"
    by (intro bit_word_eqI) simp
  then have "?s + 1 = 2 ^ k"
    by (simp only: mask_eq_decr_exp) simp
  then show "glyph_atlas__next_pow2 v = 2 ^ k"
    by (simp only: next_pow2_fill)
qed

lemma sint_pow2:
  fixes k :: nat
  assumes "k < 31"
  shows "sint ((2::32 word) ^ k) = 2 ^ k"
proof -
  have u: "uint ((2::32 word) ^ k) = 2 ^ k"
    using assms by (intro uint_2p) (simp add: word_gt_0)
  have "(2::int) ^ k < 2 ^ 31"
    using assms by (intro power_strict_increasing) simp_all
  moreover have "- (2 ^ 31) \<le> (2::int) ^ k"
    by (rule order_trans [of _ 0]) simp_all
  ultimately have "signed_take_bit 31 ((2::int) ^ k) = 2 ^ k"
    by (intro signed_take_bit_int_eq_self)
  then show ?thesis
    by (simp add: sint_uint u)
qed

text \<open>
  Claim C6. For every \<open>v\<close> with \<open>1 \<le> v \<le> 2^30\<close>, \<open>glyph_atlas__next_pow2 v\<close> is a
  power of two, is at least \<open>v\<close>, and is below every other power of two that is at
  least \<open>v\<close>; and it maps 1 to 1, 2048 to 2048 and 2049 to 4096.
\<close>

theorem next_pow2_smallest_power_of_two:
  fixes v :: "32 word"
  assumes "1 \<le> sint v" and "sint v \<le> 2 ^ 30"
  shows "(\<exists>k. sint (glyph_atlas__next_pow2 v) = 2 ^ k)
       \<and> sint v \<le> sint (glyph_atlas__next_pow2 v)
       \<and> (\<forall>j. sint v \<le> 2 ^ j \<longrightarrow> sint (glyph_atlas__next_pow2 v) \<le> 2 ^ j)
       \<and> sint (glyph_atlas__next_pow2 1) = 1
       \<and> sint (glyph_atlas__next_pow2 2048) = 2048
       \<and> sint (glyph_atlas__next_pow2 2049) = 4096"
proof -
  define x where "x = unat (v - 1)"
  define k where "k = (LEAST k. x < 2 ^ k)"
  note m = next_pow2_mask [OF assms, folded x_def, folded k_def]
  have r: "sint (glyph_atlas__next_pow2 v) = 2 ^ k"
    using m(1) by (simp only: m(4)) (simp add: sint_pow2)
  have xk: "int x < 2 ^ k"
  proof -
    from m(2) have "int x < int (2 ^ k)" by (simp only: of_nat_less_iff)
    then show ?thesis by simp
  qed
  have least: "sint (glyph_atlas__next_pow2 v) \<le> 2 ^ j" if "sint v \<le> 2 ^ j" for j
  proof -
    from that have "int x + 1 \<le> 2 ^ j" by (simp only: m(5))
    then have "int x < 2 ^ j" by linarith
    then have "x < 2 ^ j" by simp
    then have "k \<le> j" by (rule m(3))
    then have "(2::int) ^ k \<le> 2 ^ j" by (intro power_increasing) simp_all
    then show ?thesis by (simp only: r)
  qed
  have c1: "sint (glyph_atlas__next_pow2 1) = 1"
    by (simp add: glyph_atlas__next_pow2_def)
  have c2: "sint (glyph_atlas__next_pow2 2048) = 2048"
    by (simp add: glyph_atlas__next_pow2_def Let_def)
  have c3: "sint (glyph_atlas__next_pow2 2049) = 4096"
    by (simp add: glyph_atlas__next_pow2_def Let_def)
  from r have "\<exists>k. sint (glyph_atlas__next_pow2 v) = 2 ^ k" ..
  moreover have "sint v \<le> sint (glyph_atlas__next_pow2 v)"
    using xk unfolding r m(5) by linarith
  ultimately show ?thesis
    using least c1 c2 c3 by blast
qed

theorem next_pow2_smallest_power_of_two_witness:
  "1 \<le> sint (1000 :: 32 word) \<and> sint (1000 :: 32 word) \<le> 2 ^ 30
   \<and> sint (glyph_atlas__next_pow2 1000) = 2 ^ 10
   \<and> sint (1000 :: 32 word) \<le> sint (glyph_atlas__next_pow2 1000)
   \<and> sint (glyph_atlas__next_pow2 1000) \<le> 2 ^ 10"
proof -
  have a: "1 \<le> sint (1000 :: 32 word)" and b: "sint (1000 :: 32 word) \<le> 2 ^ 30"
    by simp_all
  have c: "sint (1000 :: 32 word) \<le> 2 ^ 10"
    by simp
  have "sint (glyph_atlas__next_pow2 1000) = 2 ^ 10"
    by (simp add: glyph_atlas__next_pow2_def Let_def)
  then show ?thesis
    using next_pow2_smallest_power_of_two [OF a b] a b c by simp
qed

section \<open>The two UTF-8 decoders\<close>

type_synonym byte = "8 word"

text \<open>
  A read \<^verbatim>\<open>(unsigned char)str[i]\<close>, promoted to \<^verbatim>\<open>int\<close>. The byte at
  \<open>length str\<close> is the terminating NUL; a read beyond it is outside the string and has
  no value.
\<close>

definition cstr_at :: "byte list \<Rightarrow> nat \<Rightarrow> int option" where
  "cstr_at str i =
     (if i < length str then Some (uint (str ! i))
      else if i = length str then Some 0
      else None)"

text \<open>
  The atlas decoder (\<^verbatim>\<open>glyph_atlas.h\<close>). The result is the codepoint and the new value
  of \<^verbatim>\<open>*index\<close>; \<open>None\<close> is a read past the terminator.
\<close>

definition glyph_atlas_utf8_decode :: "byte list \<Rightarrow> nat \<Rightarrow> (int \<times> nat) option" where
  "glyph_atlas_utf8_decode str index =
     (let i = index in
      do {
        c \<leftarrow> cstr_at str i;
        let i = i + 1;
        if c < 0x80 then Some (c, i)
        else if c AND 0xE0 = 0xC0 then do {
          c2 \<leftarrow> cstr_at str i;
          let i = i + 1;
          Some (push_bit 6 (c AND 0x1F) OR (c2 AND 0x3F), i)
        }
        else if c AND 0xF0 = 0xE0 then do {
          c2 \<leftarrow> cstr_at str i;
          let i = i + 1;
          c3 \<leftarrow> cstr_at str i;
          let i = i + 1;
          Some (push_bit 12 (c AND 0x0F) OR push_bit 6 (c2 AND 0x3F) OR (c3 AND 0x3F), i)
        }
        else if c AND 0xF8 = 0xF0 then do {
          c2 \<leftarrow> cstr_at str i;
          let i = i + 1;
          c3 \<leftarrow> cstr_at str i;
          let i = i + 1;
          c4 \<leftarrow> cstr_at str i;
          let i = i + 1;
          Some (push_bit 18 (c AND 0x07) OR push_bit 12 (c2 AND 0x3F)
                  OR push_bit 6 (c3 AND 0x3F) OR (c4 AND 0x3F), i)
        }
        else Some (0xFFFD, i)
      })"

text \<open>
  The renderer decoder (\<^verbatim>\<open>glyph.h\<close>). Every read is guarded by a comparison with
  \<^verbatim>\<open>strlen(str)\<close>. A return that does not assign \<^verbatim>\<open>*index\<close> leaves the index at
  its value on entry.
\<close>

definition glyph_utf8_decode :: "byte list \<Rightarrow> nat \<Rightarrow> int \<times> nat" where
  "glyph_utf8_decode str index =
     (let i = index in
      if i \<ge> length str then (0, index)
      else
        let c = uint (str ! i); i = i + 1 in
        if c < 0x80 then (c, i)
        else if c AND 0xE0 = 0xC0 then
          (if i \<ge> length str then (0xFFFD, index)
           else
             let c2 = uint (str ! i); i = i + 1 in
             if c2 AND 0xC0 \<noteq> 0x80 then (0xFFFD, index)
             else (push_bit 6 (c AND 0x1F) OR (c2 AND 0x3F), i))
        else if c AND 0xF0 = 0xE0 then
          (if i + 1 \<ge> length str then (0xFFFD, index)
           else
             let c2 = uint (str ! i); i = i + 1;
                 c3 = uint (str ! i); i = i + 1 in
             if c2 AND 0xC0 \<noteq> 0x80 \<or> c3 AND 0xC0 \<noteq> 0x80 then (0xFFFD, index)
             else (push_bit 12 (c AND 0x0F) OR push_bit 6 (c2 AND 0x3F) OR (c3 AND 0x3F), i))
        else if c AND 0xF8 = 0xF0 then
          (if i + 2 \<ge> length str then (0xFFFD, index)
           else
             let c2 = uint (str ! i); i = i + 1;
                 c3 = uint (str ! i); i = i + 1;
                 c4 = uint (str ! i); i = i + 1 in
             if c2 AND 0xC0 \<noteq> 0x80 \<or> c3 AND 0xC0 \<noteq> 0x80 \<or> c4 AND 0xC0 \<noteq> 0x80
             then (0xFFFD, index)
             else (push_bit 18 (c AND 0x07) OR push_bit 12 (c2 AND 0x3F)
                     OR push_bit 6 (c3 AND 0x3F) OR (c4 AND 0x3F), i))
        else (0xFFFD, i))"

text \<open>
  A complete, structurally valid sequence at position \<open>i\<close>: a lead byte of one of the
  four classes, followed inside the string by as many continuation bytes \<^verbatim>\<open>10xxxxxx\<close>
  as the lead byte announces. Every sequence that RFC 3629 accepts has this shape.
\<close>

definition is_continuation :: "byte list \<Rightarrow> nat \<Rightarrow> bool" where
  "is_continuation str i \<longleftrightarrow> i < length str \<and> uint (str ! i) AND 0xC0 = 0x80"

definition utf8_sequence_at :: "byte list \<Rightarrow> nat \<Rightarrow> bool" where
  "utf8_sequence_at str i \<longleftrightarrow>
     i < length str \<and>
     (let c = uint (str ! i) in
        c < 0x80
      \<or> (c AND 0xE0 = 0xC0 \<and> is_continuation str (i + 1))
      \<or> (c AND 0xF0 = 0xE0 \<and> is_continuation str (i + 1) \<and> is_continuation str (i + 2))
      \<or> (c AND 0xF8 = 0xF0 \<and> is_continuation str (i + 1) \<and> is_continuation str (i + 2)
            \<and> is_continuation str (i + 3)))"


datatype glyph_encoding_type_t = GLYPH_ENCODING_NONE | GLYPH_ENCODING_UTF8 | GLYPH_ENCODING_ASCII

text \<open>
  The per-character loop of \<^verbatim>\<open>glyph_renderer_draw_text\<close>, reduced to the index \<open>i\<close>
  and the codepoints it decodes: the glyph lookup and the vertex output in the body never
  assign \<open>i\<close>. The loop may run forever, so not returning is \<open>None\<close>.
\<close>

partial_function (option) draw_text_decode_loop ::
  "glyph_encoding_type_t \<Rightarrow> byte list \<Rightarrow> nat \<Rightarrow> int list \<Rightarrow> int list option" where
  "draw_text_decode_loop char_type text i cps =
     (if i < length text then
        (if char_type = GLYPH_ENCODING_UTF8 then
           (case glyph_utf8_decode text i of
              (codepoint, i') \<Rightarrow> draw_text_decode_loop char_type text i' (cps @ [codepoint]))
         else
           draw_text_decode_loop char_type text (i + 1) (cps @ [uint (text ! i)]))
      else Some cps)"

lemma decoders_agree:
  assumes "utf8_sequence_at str i"
  shows "glyph_atlas_utf8_decode str i = Some (glyph_utf8_decode str i)"
  using assms
  by (auto simp: utf8_sequence_at_def is_continuation_def glyph_atlas_utf8_decode_def
      glyph_utf8_decode_def cstr_at_def Let_def numeral_3_eq_3)

lemma atlas_decode_bad_continuation:
  "glyph_atlas_utf8_decode [0xC3, 0x41] 0 = Some (0xC1, 2)"
  by (simp add: glyph_atlas_utf8_decode_def cstr_at_def)

lemma renderer_decode_bad_continuation:
  "glyph_utf8_decode [0xC3, 0x41] 0 = (0xFFFD, 0)"
  by (simp add: glyph_utf8_decode_def)

lemma atlas_decode_truncated:
  "glyph_atlas_utf8_decode [0xC3] 0 = Some (0xC0, 2)"
  by (simp add: glyph_atlas_utf8_decode_def cstr_at_def)

lemma renderer_decode_truncated:
  "glyph_utf8_decode [0xC3] 0 = (0xFFFD, 0)"
  by (simp add: glyph_utf8_decode_def)

text \<open>
  Claim C8. At every position that holds a complete, valid 1--4-byte sequence the two
  decoders return the same codepoint and the same new index; and they differ on malformed
  input: on the lead byte \<^verbatim>\<open>0xC3\<close> followed by \<^verbatim>\<open>0x41\<close>, which is no continuation
  byte, and on the truncated sequence \<^verbatim>\<open>0xC3\<close>, the atlas decoder returns a codepoint
  and moves the index by two while the renderer decoder returns \<^verbatim>\<open>0xFFFD\<close>.
\<close>

theorem utf8_decoders_agree_on_valid_differ_on_malformed:
  "(\<forall>str i. utf8_sequence_at str i \<longrightarrow>
      glyph_atlas_utf8_decode str i = Some (glyph_utf8_decode str i))
   \<and> glyph_atlas_utf8_decode [0xC3, 0x41] 0 = Some (0xC1, 2)
   \<and> glyph_utf8_decode [0xC3, 0x41] 0 = (0xFFFD, 0)
   \<and> glyph_atlas_utf8_decode [0xC3] 0 = Some (0xC0, 2)
   \<and> glyph_utf8_decode [0xC3] 0 = (0xFFFD, 0)"
  using decoders_agree atlas_decode_bad_continuation renderer_decode_bad_continuation
    atlas_decode_truncated renderer_decode_truncated
  by blast

theorem utf8_decoders_agree_on_valid_differ_on_malformed_witness:
  "utf8_sequence_at [0xE2, 0x82, 0xAC] 0
   \<and> glyph_atlas_utf8_decode [0xE2, 0x82, 0xAC] 0 = Some (0x20AC, 3)
   \<and> glyph_utf8_decode [0xE2, 0x82, 0xAC] 0 = (0x20AC, 3)"
proof -
  have a: "utf8_sequence_at [0xE2, 0x82, 0xAC] 0"
    by (simp add: utf8_sequence_at_def is_continuation_def)
  have b: "glyph_utf8_decode [0xE2, 0x82, 0xAC] 0 = (0x20AC, 3)"
    by (simp add: glyph_utf8_decode_def)
  from utf8_decoders_agree_on_valid_differ_on_malformed
  have "utf8_sequence_at [0xE2, 0x82, 0xAC] 0 \<longrightarrow>
      glyph_atlas_utf8_decode [0xE2, 0x82, 0xAC] 0 = Some (glyph_utf8_decode [0xE2, 0x82, 0xAC] 0)"
    by blast
  with a b show ?thesis by simp
qed

lemma draw_text_loop_stuck: "draw_text_decode_loop GLYPH_ENCODING_UTF8 [0xC3] 0 cps = None"
proof (rule ccontr)
  assume "draw_text_decode_loop GLYPH_ENCODING_UTF8 [0xC3] 0 cps \<noteq> None"
  then obtain r where r: "draw_text_decode_loop GLYPH_ENCODING_UTF8 [0xC3] 0 cps = Some r"
    by blast
  have "\<not> (ct = GLYPH_ENCODING_UTF8 \<and> str = [0xC3] \<and> i = 0)"
    if "draw_text_decode_loop ct str i acc = Some y" for ct str i acc y
    using that
  proof (rule draw_text_decode_loop.raw_induct [rotated 1])
    fix loop ct str i acc y
    assume ih: "\<And>ct str i acc y. loop ct str i acc = Some y \<Longrightarrow>
                  \<not> (ct = GLYPH_ENCODING_UTF8 \<and> str = [0xC3] \<and> i = 0)"
      and step: "(if i < length str then
        (if ct = GLYPH_ENCODING_UTF8 then
           (case glyph_utf8_decode str i of
              (codepoint, i') \<Rightarrow> loop ct str i' (acc @ [codepoint]))
         else
           loop ct str (i + 1) (acc @ [uint (str ! i)]))
      else Some acc) = Some y"
    show "\<not> (ct = GLYPH_ENCODING_UTF8 \<and> str = [0xC3] \<and> i = 0)"
    proof
      assume a: "ct = GLYPH_ENCODING_UTF8 \<and> str = [0xC3] \<and> i = 0"
      with step have "loop GLYPH_ENCODING_UTF8 [0xC3] 0 (acc @ [0xFFFD]) = Some y"
        by (simp add: renderer_decode_truncated)
      from ih [OF this] show False by simp
    qed
  qed
  from this [OF r] show False by simp
qed


text \<open>
  Claim C10 (the code departs from it). On the truncated two-byte sequence \<^verbatim>\<open>0xC3\<close> at
  index 0, which is below the length 1 of the string, \<open>glyph_utf8_decode\<close> returns
  \<^verbatim>\<open>0xFFFD\<close> through the early return that does not assign \<^verbatim>\<open>*index\<close>: the
  index stays 0, and the decode loop of \<^verbatim>\<open>glyph_renderer_draw_text\<close> never returns on
  that text.
\<close>

theorem glyph_utf8_decode_index_stuck_on_truncated:
  "snd (glyph_utf8_decode [0xC3] 0) = 0
   \<and> fst (glyph_utf8_decode [0xC3] 0) = 0xFFFD
   \<and> 0 < length [0xC3 :: byte]
   \<and> draw_text_decode_loop GLYPH_ENCODING_UTF8 [0xC3] 0 [] = None"
  by (simp add: renderer_decode_truncated draw_text_loop_stuck)

theorem glyph_utf8_decode_index_stuck_on_truncated_witness:
  "glyph_utf8_decode [0xC3] 0 = (0xFFFD, 0)
   \<and> draw_text_decode_loop GLYPH_ENCODING_UTF8 [0xC3] 0 [] \<noteq> Some [0xFFFD]"
  using glyph_utf8_decode_index_stuck_on_truncated
  by (simp add: prod_eq_iff)

section \<open>\<^verbatim>\<open>glyph_atlas_find_char\<close>\<close>

record glyph_atlas_char =
  codepoint :: int
  ch_x :: int
  ch_y :: int
  ch_width :: int
  ch_height :: int
  ch_xoff :: int
  ch_yoff :: int
  ch_advance :: int

text \<open>
  \<^verbatim>\<open>glyph_image_t\<close>: the dimensions, and whether \<^verbatim>\<open>data\<close> points to a buffer. The
  pixels themselves are not modelled.
\<close>

record glyph_image_t =
  img_width :: int
  img_height :: int
  img_data :: bool

text \<open>\<^verbatim>\<open>glyph_atlas_t\<close>; \<open>chars = None\<close> is the NULL pointer.\<close>

record glyph_atlas_t =
  image :: glyph_image_t
  chars :: "glyph_atlas_char list option"
  num_chars :: int
  pixel_height :: real

text \<open>
  What C leaves undefined and the model makes a result: a read or a write outside an
  array, an \<^verbatim>\<open>int\<close> computation that overflows, and a write through a NULL pointer.
  The search below can only run into the first.
\<close>

datatype fault = OutOfBoundsRead | OutOfBoundsWrite | SignedOverflow | NullPointerWrite

text \<open>
  The linear search. The result \<open>Inr (Some i)\<close> is the pointer \<^verbatim>\<open>&atlas->chars[i]\<close>,
  \<open>Inr None\<close> is NULL, and \<open>Inl OutOfBoundsRead\<close> is a read of \<^verbatim>\<open>chars[i]\<close> beyond
  the allocated array.
\<close>

function find_char_loop :: "glyph_atlas_char list \<Rightarrow> int \<Rightarrow> int \<Rightarrow> nat \<Rightarrow> fault + nat option" where
  "find_char_loop cs n cp i =
     (if int i < n then
        (if i < length cs then
           (if codepoint (cs ! i) = cp then Inr (Some i)
            else find_char_loop cs n cp (i + 1))
         else Inl OutOfBoundsRead)
      else Inr None)"
  by pat_completeness auto
termination
  by (relation "measure (\<lambda>(cs, n, cp, i). length cs - i)") auto

declare find_char_loop.simps [simp del]

definition glyph_atlas_find_char :: "glyph_atlas_t option \<Rightarrow> int \<Rightarrow> fault + nat option" where
  "glyph_atlas_find_char atlas cp =
     (case atlas of
        None \<Rightarrow> Inr None
      | Some a \<Rightarrow>
          (case chars a of
             None \<Rightarrow> Inr None
           | Some cs \<Rightarrow> find_char_loop cs (num_chars a) cp 0))"

text \<open>
  The atlases of the library: \<^verbatim>\<open>chars\<close> is NULL or an array of \<^verbatim>\<open>num_chars\<close>
  entries.
\<close>

definition atlas_wf :: "glyph_atlas_t \<Rightarrow> bool" where
  "atlas_wf a = (case chars a of None \<Rightarrow> True | Some cs \<Rightarrow> num_chars a = int (length cs))"






section \<open>The glyph order\<close>

text \<open>
  The temporary glyph of the source; \<open>bitmap\<close> says whether the pointer of that name is
  non-NULL.
\<close>

record temp_glyph_t =
  bitmap :: bool
  width :: int
  height :: int
  xoff :: int
  yoff :: int
  advance :: int
  is_default :: int

text \<open>
  The bubble sort of the source over the index array \<^verbatim>\<open>glyph_order\<close>, which starts as
  \<open>0, 1, \<dots>\<close>. The loop counters are naturals, so the conditions
  \<^verbatim>\<open>j < charset_len - i - 1\<close> and \<^verbatim>\<open>i < charset_len - 1\<close> are written with the
  subtrahends on the left. Two neighbours are swapped only when the first is strictly
  lower than the second.
\<close>

function bubble_inner :: "temp_glyph_t list \<Rightarrow> nat \<Rightarrow> nat \<Rightarrow> nat \<Rightarrow> nat list \<Rightarrow> nat list" where
  "bubble_inner temp_glyphs charset_len i j glyph_order =
     (if j + i + 1 < charset_len then
        bubble_inner temp_glyphs charset_len i (j + 1)
          (if height (temp_glyphs ! (glyph_order ! j)) < height (temp_glyphs ! (glyph_order ! (j + 1)))
           then glyph_order[j := glyph_order ! (j + 1), j + 1 := glyph_order ! j]
           else glyph_order)
      else glyph_order)"
  by pat_completeness auto
termination
  by (relation "measure (\<lambda>(tg, n, i, j, ord). n - i - 1 - j)") auto

function bubble_outer :: "temp_glyph_t list \<Rightarrow> nat \<Rightarrow> nat \<Rightarrow> nat list \<Rightarrow> nat list" where
  "bubble_outer temp_glyphs charset_len i glyph_order =
     (if i + 1 < charset_len then
        bubble_outer temp_glyphs charset_len (i + 1)
          (bubble_inner temp_glyphs charset_len i 0 glyph_order)
      else glyph_order)"
  by pat_completeness auto
termination
  by (relation "measure (\<lambda>(tg, n, i, ord). n - i)") auto

definition sort_glyph_order :: "temp_glyph_t list \<Rightarrow> nat \<Rightarrow> nat list" where
  "sort_glyph_order temp_glyphs charset_len =
     bubble_outer temp_glyphs charset_len 0 [0..<charset_len]"

declare bubble_inner.simps [simp del] bubble_outer.simps [simp del]

text \<open>The body of the inner loop, and the order of equal heights, named for the proofs.\<close>

definition compare_swap :: "temp_glyph_t list \<Rightarrow> nat list \<Rightarrow> nat \<Rightarrow> nat list" where
  "compare_swap tg ord j =
     (if height (tg ! (ord ! j)) < height (tg ! (ord ! (j + 1)))
      then ord[j := ord ! (j + 1), j + 1 := ord ! j]
      else ord)"

definition ties_in_order :: "temp_glyph_t list \<Rightarrow> nat list \<Rightarrow> bool" where
  "ties_in_order tg ord \<longleftrightarrow>
     (\<forall>p q. p < q \<and> q < length ord \<and> height (tg ! (ord ! p)) = height (tg ! (ord ! q))
        \<longrightarrow> ord ! p < ord ! q)"

lemma inner_step:
  "j + i + 1 < n \<Longrightarrow>
     bubble_inner tg n i j ord = bubble_inner tg n i (j + 1) (compare_swap tg ord j)"
  by (subst bubble_inner.simps) (simp add: compare_swap_def)

lemma inner_done: "\<not> j + i + 1 < n \<Longrightarrow> bubble_inner tg n i j ord = ord"
  by (subst bubble_inner.simps) simp

lemma length_compare_swap [simp]: "length (compare_swap tg ord j) = length ord"
  by (simp add: compare_swap_def)

lemma nth_compare_swap:
  assumes "j + 1 < length ord"
  shows "compare_swap tg ord j ! k =
     (if height (tg ! (ord ! j)) < height (tg ! (ord ! (j + 1))) then
        (if k = j then ord ! (j + 1) else if k = j + 1 then ord ! j else ord ! k)
      else ord ! k)"
  using assms by (simp add: compare_swap_def nth_list_update)

lemma mset_compare_swap: "j + 1 < length ord \<Longrightarrow> mset (compare_swap tg ord j) = mset ord"
  unfolding compare_swap_def by (simp add: mset_swap)

lemma ties_compare_swap:
  assumes "j + 1 < length ord" and "ties_in_order tg ord"
  shows "ties_in_order tg (compare_swap tg ord j)"
proof (cases "height (tg ! (ord ! j)) < height (tg ! (ord ! (j + 1)))")
  case False
  with assms show ?thesis by (simp add: compare_swap_def)
next
  case True
  show ?thesis
    unfolding ties_in_order_def
  proof (intro allI impI)
    fix p q
    assume a: "p < q \<and> q < length (compare_swap tg ord j)
      \<and> height (tg ! (compare_swap tg ord j ! p)) = height (tg ! (compare_swap tg ord j ! q))"
    define f where "f k = (if k = j then j + 1 else if k = j + 1 then j else k)" for k
    have nth: "compare_swap tg ord j ! k = ord ! f k" for k
      using True assms(1) by (simp add: nth_compare_swap f_def)
    from a have h: "height (tg ! (ord ! f p)) = height (tg ! (ord ! f q))"
      by (simp add: nth)
    have ne: "\<not> (p = j \<and> q = j + 1)"
      using h True by (auto simp: f_def)
    from a ne have "f p < f q" by (auto simp: f_def)
    moreover from a assms(1) have "f q < length ord" by (auto simp: f_def)
    ultimately have "ord ! f p < ord ! f q"
      using assms(2) h by (simp add: ties_in_order_def)
    then show "compare_swap tg ord j ! p < compare_swap tg ord j ! q"
      by (simp add: nth)
  qed
qed

lemma inner_length [simp]: "length (bubble_inner tg n i j ord) = length ord"
proof (induction "n - (j + i + 1)" arbitrary: j ord)
  case 0
  then show ?case by (simp add: inner_done)
next
  case (Suc k)
  then have "j + i + 1 < n" "k = n - (j + 1 + i + 1)" by simp_all
  with Suc.hyps(1) [of "j + 1" "compare_swap tg ord j"] show ?case
    by (simp add: inner_step)
qed

text \<open>What one pass of the inner loop keeps and what it establishes.\<close>

definition pass_result :: "temp_glyph_t list \<Rightarrow> nat \<Rightarrow> nat \<Rightarrow> nat list \<Rightarrow> nat list \<Rightarrow> bool" where
  "pass_result tg n i ord r \<longleftrightarrow>
     length r = length ord
     \<and> mset r = mset ord
     \<and> (ties_in_order tg ord \<longrightarrow> ties_in_order tg r)
     \<and> (\<forall>k. n - i \<le> k \<longrightarrow> r ! k = ord ! k)
     \<and> (\<forall>p<n - i. \<exists>q<n - i. r ! p = ord ! q)
     \<and> (\<forall>k<n - i. height (tg ! (r ! (n - i - 1))) \<le> height (tg ! (r ! k)))"

lemma pass_result_tail: "pass_result tg n i ord r \<Longrightarrow> n - i \<le> k \<Longrightarrow> r ! k = ord ! k"
  by (simp add: pass_result_def)

lemma pass_result_source:
  "pass_result tg n i ord r \<Longrightarrow> p < n - i \<Longrightarrow> \<exists>q<n - i. r ! p = ord ! q"
  by (simp add: pass_result_def)

lemma pass_result_last:
  "pass_result tg n i ord r \<Longrightarrow> k < n - i \<Longrightarrow>
     height (tg ! (r ! (n - i - 1))) \<le> height (tg ! (r ! k))"
  by (simp add: pass_result_def)

lemma inner_pass:
  assumes "n \<le> length ord" and "j + i + 1 \<le> n"
    and "\<forall>k\<le>j. height (tg ! (ord ! j)) \<le> height (tg ! (ord ! k))"
  shows "pass_result tg n i ord (bubble_inner tg n i j ord)"
  using assms
proof (induction "n - (j + i + 1)" arbitrary: j ord)
  case 0
  then have d: "bubble_inner tg n i j ord = ord" and j: "j = n - i - 1"
    by (simp_all add: inner_done)
  from 0(4) j show ?case
    unfolding pass_result_def d by auto
next
  case (Suc k)
  then have lt: "j + i + 1 < n" and k: "k = n - (j + 1 + i + 1)" by simp_all
  let ?o = "compare_swap tg ord j"
  have st: "bubble_inner tg n i j ord = bubble_inner tg n i (j + 1) ?o"
    using lt by (rule inner_step)
  have j1: "j + 1 < length ord" using lt Suc.prems(1) by simp
  have len: "n \<le> length ?o" using Suc.prems(1) by simp
  have le: "j + 1 + i + 1 \<le> n" using lt by simp
  have pre: "\<forall>k\<le>j + 1. height (tg ! (?o ! (j + 1))) \<le> height (tg ! (?o ! k))"
  proof (intro allI impI)
    fix m assume "m \<le> j + 1"
    then consider "m = j + 1" | "m = j" | "m < j" by linarith
    then show "height (tg ! (?o ! (j + 1))) \<le> height (tg ! (?o ! m))"
    proof cases
      case 1 then show ?thesis by simp
    next
      case 2 then show ?thesis by (simp add: nth_compare_swap [OF j1])
    next
      case 3
      with Suc.prems(3) have "height (tg ! (ord ! j)) \<le> height (tg ! (ord ! m))" by simp
      with 3 show ?thesis by (simp add: nth_compare_swap [OF j1])
    qed
  qed
  from Suc.hyps(1) [OF k len le pre]
  have ih: "pass_result tg n i ?o (bubble_inner tg n i j ord)"
    by (simp only: st)
  let ?r = "bubble_inner tg n i j ord"
  have a: "length ?r = length ord" by simp
  have b: "mset ?r = mset ord"
    using ih by (simp add: pass_result_def mset_compare_swap [OF j1])
  have c: "ties_in_order tg ?r" if "ties_in_order tg ord"
    using ih ties_compare_swap [OF j1 that] by (simp add: pass_result_def)
  have d: "?r ! m = ord ! m" if "n - i \<le> m" for m
  proof -
    from ih that have "?r ! m = ?o ! m" by (simp add: pass_result_def)
    also have "\<dots> = ord ! m"
    proof -
      from that lt have "m \<noteq> j" "m \<noteq> j + 1" by arith+
      then show ?thesis by (simp add: nth_compare_swap [OF j1])
    qed
    finally show ?thesis .
  qed
  have e: "\<exists>q<n - i. ?r ! p = ord ! q" if "p < n - i" for p
  proof -
    from ih that obtain q where q: "q < n - i" "?r ! p = ?o ! q"
      by (auto simp: pass_result_def)
    have "\<exists>q'<n - i. ?o ! q = ord ! q'"
    proof -
      consider "?o ! q = ord ! q" | "?o ! q = ord ! j" | "?o ! q = ord ! (j + 1)"
        by atomize_elim (simp add: nth_compare_swap [OF j1])
      then show ?thesis
      proof cases
        case 1 with q(1) show ?thesis by blast
      next
        case 2 moreover from lt have "j < n - i" by simp
        ultimately show ?thesis by blast
      next
        case 3 moreover from lt have "j + 1 < n - i" by simp
        ultimately show ?thesis by blast
      qed
    qed
    with q(2) show ?thesis by simp
  qed
  have f: "\<forall>k<n - i. height (tg ! (?r ! (n - i - 1))) \<le> height (tg ! (?r ! k))"
    using ih by (simp add: pass_result_def)
  from a b c d e f show ?case
    unfolding pass_result_def by blast
qed


definition tail_sorted :: "temp_glyph_t list \<Rightarrow> nat \<Rightarrow> nat \<Rightarrow> nat list \<Rightarrow> bool" where
  "tail_sorted tg n i ord \<longleftrightarrow>
     (\<forall>p q. p < q \<and> n - i \<le> q \<and> q < n \<longrightarrow>
        height (tg ! (ord ! q)) \<le> height (tg ! (ord ! p)))"

lemma outer_step:
  "i + 1 < n \<Longrightarrow> bubble_outer tg n i ord = bubble_outer tg n (i + 1) (bubble_inner tg n i 0 ord)"
  by (subst bubble_outer.simps) simp

lemma outer_done: "\<not> i + 1 < n \<Longrightarrow> bubble_outer tg n i ord = ord"
  by (subst bubble_outer.simps) simp

lemma tail_sorted_pass:
  assumes len: "length ord = n" and i: "i + 1 < n" and ts: "tail_sorted tg n i ord"
  shows "tail_sorted tg n (i + 1) (bubble_inner tg n i 0 ord)"
proof -
  let ?r = "bubble_inner tg n i 0 ord"
  have pr: "pass_result tg n i ord ?r"
    using len i by (intro inner_pass) simp_all
  show ?thesis
    unfolding tail_sorted_def
  proof (intro allI impI)
    fix p q
    assume a: "p < q \<and> n - (i + 1) \<le> q \<and> q < n"
    show "height (tg ! (?r ! q)) \<le> height (tg ! (?r ! p))"
    proof (cases "q = n - i - 1")
      case True
      with a have "p < n - i" by arith
      from pass_result_last [OF pr this] True show ?thesis by simp
    next
      case False
      with a have q: "n - i \<le> q" by arith
      with pr have rq: "?r ! q = ord ! q" by (simp add: pass_result_tail)
      show ?thesis
      proof (cases "n - i \<le> p")
        case True
        with pr have "?r ! p = ord ! p" by (simp add: pass_result_tail)
        with rq ts a q show ?thesis by (simp add: tail_sorted_def)
      next
        case False
        then have "p < n - i" by simp
        from pass_result_source [OF pr this] obtain p' where p': "p' < n - i" "?r ! p = ord ! p'"
          by blast
        with q have "p' < q" by simp
        with ts a q have "height (tg ! (ord ! q)) \<le> height (tg ! (ord ! p'))"
          by (simp add: tail_sorted_def)
        with rq p' show ?thesis by simp
      qed
    qed
  qed
qed

lemma outer_loop:
  assumes "length ord = n" and "tail_sorted tg n i ord" and "i < n \<or> n = 0"
  shows "length (bubble_outer tg n i ord) = n
       \<and> mset (bubble_outer tg n i ord) = mset ord
       \<and> (ties_in_order tg ord \<longrightarrow> ties_in_order tg (bubble_outer tg n i ord))
       \<and> (\<forall>p q. p < q \<and> q < n \<longrightarrow>
            height (tg ! (bubble_outer tg n i ord ! q)) \<le> height (tg ! (bubble_outer tg n i ord ! p)))"
  using assms
proof (induction "n - i" arbitrary: i ord)
  case 0
  then have "n = 0" by simp
  with 0 show ?case by (simp add: outer_done)
next
  case (Suc k)
  show ?case
  proof (cases "i + 1 < n")
    case False
    with Suc.prems Suc.hyps(2) have d: "bubble_outer tg n i ord = ord" and "n - i = 1"
      by (simp_all add: outer_done)
    have "\<forall>p q. p < q \<and> q < n \<longrightarrow>
        height (tg ! (ord ! q)) \<le> height (tg ! (ord ! p))"
    proof (intro allI impI)
      fix p q assume pq: "p < q \<and> q < n"
      with \<open>n - i = 1\<close> have "n - i \<le> q" by arith
      with pq Suc.prems(2) show "height (tg ! (ord ! q)) \<le> height (tg ! (ord ! p))"
        by (simp add: tail_sorted_def)
    qed
    with Suc.prems(1) show ?thesis by (simp add: d)
  next
    case True
    let ?o = "bubble_inner tg n i 0 ord"
    have pr: "pass_result tg n i ord ?o"
      using Suc.prems(1) True by (intro inner_pass) simp_all
    have k: "k = n - (i + 1)" using Suc.hyps(2) by simp
    have len: "length ?o = n" using Suc.prems(1) by simp
    have ts: "tail_sorted tg n (i + 1) ?o"
      using Suc.prems(1) True Suc.prems(2) by (rule tail_sorted_pass)
    have "i + 1 < n \<or> n = 0" using True by simp
    from Suc.hyps(1) [OF k len ts this] pr show ?thesis
      by (simp add: outer_step [OF True] pass_result_def)
  qed
qed

lemma ties_in_order_upt: "ties_in_order tg [0..<n]"
  by (simp add: ties_in_order_def)

lemma tail_sorted_0: "tail_sorted tg n 0 ord"
  by (simp add: tail_sorted_def)

lemma sort_glyph_order_props:
  "length (sort_glyph_order tg n) = n
   \<and> mset (sort_glyph_order tg n) = mset [0..<n]
   \<and> ties_in_order tg (sort_glyph_order tg n)
   \<and> (\<forall>p q. p < q \<and> q < n \<longrightarrow>
         height (tg ! (sort_glyph_order tg n ! q)) \<le> height (tg ! (sort_glyph_order tg n ! p)))"
proof -
  have c: "0 < n \<or> n = 0" by auto
  have "length [0..<n] = n" by simp
  from outer_loop [OF this tail_sorted_0 c, of tg] ties_in_order_upt [of tg n]
  show ?thesis by (simp add: sort_glyph_order_def)
qed

lemma sort_glyph_order_set: "set (sort_glyph_order tg n) = {0..<n}"
proof -
  have "set_mset (mset (sort_glyph_order tg n)) = set_mset (mset [0..<n])"
    using sort_glyph_order_props [of tg n] by simp
  then show ?thesis by simp
qed

text \<open>
  Claim C7. The glyph order computed for the \<open>length tg\<close> glyphs of \<open>tg\<close> is a
  permutation of the indices \<open>0, \<dots>, length tg - 1\<close>; the heights along it never increase;
  and two glyphs of equal height stand in it in the order of their indices, which is their
  order in the charset.
\<close>

theorem glyph_order_sorted_stable_permutation:
  "mset (sort_glyph_order tg (length tg)) = mset [0..<length tg]
   \<and> (\<forall>p q. p < q \<and> q < length tg \<longrightarrow>
         height (tg ! (sort_glyph_order tg (length tg) ! p))
           \<ge> height (tg ! (sort_glyph_order tg (length tg) ! q)))
   \<and> (\<forall>p q. p < q \<and> q < length tg
         \<and> height (tg ! (sort_glyph_order tg (length tg) ! p))
             = height (tg ! (sort_glyph_order tg (length tg) ! q))
         \<longrightarrow> sort_glyph_order tg (length tg) ! p < sort_glyph_order tg (length tg) ! q)"
proof -
  note r = sort_glyph_order_props [of tg "length tg"]
  then have "ties_in_order tg (sort_glyph_order tg (length tg))"
    and "length (sort_glyph_order tg (length tg)) = length tg"
    by simp_all
  then have "\<forall>p q. p < q \<and> q < length tg
         \<and> height (tg ! (sort_glyph_order tg (length tg) ! p))
             = height (tg ! (sort_glyph_order tg (length tg) ! q))
         \<longrightarrow> sort_glyph_order tg (length tg) ! p < sort_glyph_order tg (length tg) ! q"
    unfolding ties_in_order_def by simp
  with r show ?thesis by blast
qed

text \<open>Four glyphs of heights 10, 12, 10 and 12: the order is 1, 3, 0, 2.\<close>

definition four_glyphs :: "temp_glyph_t list" where
  "four_glyphs =
     [\<lparr>bitmap = True, width = 5, height = 10, xoff = 0, yoff = 0, advance = 6, is_default = 0\<rparr>,
      \<lparr>bitmap = True, width = 5, height = 12, xoff = 0, yoff = 0, advance = 6, is_default = 0\<rparr>,
      \<lparr>bitmap = True, width = 5, height = 10, xoff = 0, yoff = 0, advance = 6, is_default = 0\<rparr>,
      \<lparr>bitmap = True, width = 5, height = 12, xoff = 0, yoff = 0, advance = 6, is_default = 0\<rparr>]"

theorem glyph_order_sorted_stable_permutation_witness:
  "sort_glyph_order four_glyphs (length four_glyphs) = [1, 3, 0, 2]
   \<and> mset (sort_glyph_order four_glyphs (length four_glyphs)) = mset [0..<4]
   \<and> (0::nat) < 1 \<and> 1 < length four_glyphs
   \<and> height (four_glyphs ! (sort_glyph_order four_glyphs (length four_glyphs) ! 0))
       = height (four_glyphs ! (sort_glyph_order four_glyphs (length four_glyphs) ! 1))
   \<and> sort_glyph_order four_glyphs (length four_glyphs) ! 0
       < sort_glyph_order four_glyphs (length four_glyphs) ! 1
   \<and> (1::nat) < 2 \<and> 2 < length four_glyphs
   \<and> height (four_glyphs ! (sort_glyph_order four_glyphs (length four_glyphs) ! 1))
       \<ge> height (four_glyphs ! (sort_glyph_order four_glyphs (length four_glyphs) ! 2))"
proof -
  have len: "length four_glyphs = 4"
    by (simp add: four_glyphs_def)
  have s: "sort_glyph_order four_glyphs (length four_glyphs) = [1, 3, 0, 2]"
    by code_simp
  have h: "height (four_glyphs ! (sort_glyph_order four_glyphs (length four_glyphs) ! 0))
       = height (four_glyphs ! (sort_glyph_order four_glyphs (length four_glyphs) ! 1))"
    unfolding s by (simp add: four_glyphs_def)
  note t = glyph_order_sorted_stable_permutation [of four_glyphs]
  from t have a: "mset (sort_glyph_order four_glyphs (length four_glyphs)) = mset [0..<4]"
    by (simp only: len) 
  from t h len
  have b: "sort_glyph_order four_glyphs (length four_glyphs) ! 0
       < sort_glyph_order four_glyphs (length four_glyphs) ! 1"
    by (metis One_nat_def Suc_1 lessI less_numeral_extra(1) numeral_3_eq_3 numeral_Bit0 add_2_eq_Suc' less_Suc_eq)
  from t len
  have c: "height (four_glyphs ! (sort_glyph_order four_glyphs (length four_glyphs) ! 1))
       \<ge> height (four_glyphs ! (sort_glyph_order four_glyphs (length four_glyphs) ! 2))"
    by (simp add: s four_glyphs_def)
  from s a h b c len show ?thesis by simp
qed

section \<open>\<^verbatim>\<open>glyph_atlas_create\<close>\<close>

subsection \<open>What the function takes from outside\<close>

text \<open>
  The TrueType module \<^verbatim>\<open>glyph_truetype.h\<close> is not among the sources, so a loaded font
  is the three things \<open>glyph_atlas_create\<close> asks of it, at the scale of the call:
  the glyph index of a codepoint, the rasterised bitmap of a glyph, and the scaled advance
  \<^verbatim>\<open>(int)(glyph_ttf_get_glyph_advance(font, glyph_idx) * scale)\<close>. \<open>sdf_bitmap_ok\<close>
  says whether \<^verbatim>\<open>glyph_ttf_get_glyph_sdf_bitmap\<close> returns a buffer for the glyph.
\<close>

record glyph_bitmap =
  bm_data :: bool
  bm_width :: int
  bm_height :: int
  bm_xoff :: int
  bm_yoff :: int

record glyph_font_t =
  find_glyph_index :: "int \<Rightarrow> int"
  get_glyph_bitmap :: "int \<Rightarrow> glyph_bitmap"
  sdf_bitmap_ok :: "int \<Rightarrow> bool"
  scaled_advance :: "int \<Rightarrow> int"

text \<open>
  The rest of the outside world: the result of \<^verbatim>\<open>glyph_ttf_load_font_from_file\<close>
  (\<open>None\<close> when it fails), the two floating-point values the function computes, namely
  \<^verbatim>\<open>(int)(pixel_height * 0.5f)\<close> and \<^verbatim>\<open>(int)sqrtf(x)\<close>, whether each of the three
  checked and the one unchecked \<^verbatim>\<open>GLYPH_MALLOC\<close> calls succeeds, whether
  \<^verbatim>\<open>glyph_image_create(width, height)\<close> (of \<^verbatim>\<open>glyph_image.h\<close>, not among the sources)
  returns an image with a buffer of \<open>width * height * 3\<close> bytes or with a NULL
  \<^verbatim>\<open>data\<close>, and the content of the fresh, uninitialised \<^verbatim>\<open>atlas.chars\<close> array.
\<close>

record environment =
  load_font :: "string \<Rightarrow> glyph_font_t option"
  half_pixel_height :: int
  int_sqrtf :: "int \<Rightarrow> int"
  malloc_chars_ok :: bool
  malloc_temp_glyphs_ok :: bool
  malloc_glyph_order_ok :: bool
  malloc_current_row_ok :: bool
  image_data_ok :: "int \<Rightarrow> int \<Rightarrow> bool"
  uninitialised_char :: "nat \<Rightarrow> glyph_atlas_char"

definition GLYPHGL_ATLAS_WIDTH :: int where "GLYPHGL_ATLAS_WIDTH = 2048"
definition GLYPHGL_ATLAS_HEIGHT :: int where "GLYPHGL_ATLAS_HEIGHT = 2048"

text \<open>The default charset literal: the bytes 0x20 to 0x7E in ascending order.\<close>

definition default_charset :: "byte list" where
  "default_charset = map of_nat [32..<127]"

definition zero_image :: glyph_image_t where
  "zero_image = \<lparr>img_width = 0, img_height = 0, img_data = False\<rparr>"

text \<open>\<^verbatim>\<open>glyph_atlas_t atlas = {0}\<close>\<close>

definition zero_atlas :: glyph_atlas_t where
  "zero_atlas = \<lparr>image = zero_image, chars = None, num_chars = 0, pixel_height = 0\<rparr>"

subsection \<open>Counting the charset\<close>

lemma atlas_decode_advances:
  "glyph_atlas_utf8_decode str i = Some (cp, i') \<Longrightarrow> i < i'"
  by (auto simp: glyph_atlas_utf8_decode_def Let_def split: if_splits bind_splits)

function utf8_count :: "byte list \<Rightarrow> nat \<Rightarrow> nat \<Rightarrow> (fault + nat)" where
  "utf8_count charset idx charset_len =
     (if idx < length charset then
        (case glyph_atlas_utf8_decode charset idx of
           None \<Rightarrow> Inl OutOfBoundsRead
         | Some (cp, idx') \<Rightarrow> utf8_count charset idx' (charset_len + 1))
      else Inr charset_len)"
  by pat_completeness auto
termination
  by (relation "measure (\<lambda>(charset, idx, n). length charset - idx)")
     (auto dest: atlas_decode_advances)

declare utf8_count.simps [simp del]

definition count_charset :: "glyph_encoding_type_t \<Rightarrow> byte list \<Rightarrow> fault + nat" where
  "count_charset char_type charset =
     (if char_type = GLYPH_ENCODING_UTF8 then utf8_count charset 0 0
      else Inr (length charset))"

subsection \<open>Phase 1: rasterising\<close>

record phase1 =
  charset_idx :: nat
  temp_glyphs :: "temp_glyph_t list"
  p1_chars :: "glyph_atlas_char list"
  total_width :: int
  max_height :: int

definition rasterize_one ::
  "environment \<Rightarrow> glyph_font_t \<Rightarrow> bool \<Rightarrow> nat \<Rightarrow> int \<Rightarrow> phase1 \<Rightarrow> phase1" where
  "rasterize_one env font use_sdf i cp st =
     (let glyph_idx = find_glyph_index font cp in
      if glyph_idx = 0 \<and> cp \<noteq> 32 then
        st\<lparr>temp_glyphs := (temp_glyphs st)[i :=
              \<lparr>bitmap = False, width = 0, height = 0, xoff = 0, yoff = 0,
               advance = half_pixel_height env, is_default = 0\<rparr>],
           p1_chars := (p1_chars st)[i := (p1_chars st ! i)\<lparr>codepoint := cp\<rparr>]\<rparr>
      else
        let bm = get_glyph_bitmap font glyph_idx;
            bitmap' = (if use_sdf \<and> bm_data bm then sdf_bitmap_ok font glyph_idx else bm_data bm);
            g = \<lparr>bitmap = bitmap', width = bm_width bm, height = bm_height bm,
                 xoff = bm_xoff bm, yoff = bm_yoff bm,
                 advance = scaled_advance font glyph_idx,
                 is_default = (if use_sdf then 1 else 0)\<rparr>
        in st\<lparr>temp_glyphs := (temp_glyphs st)[i := g],
              p1_chars := (p1_chars st)[i := (p1_chars st ! i)\<lparr>codepoint := cp, ch_advance := advance g\<rparr>],
              total_width := total_width st + (bm_width bm + 4),
              max_height := (if bm_height bm > max_height st then bm_height bm else max_height st)\<rparr>)"

function rasterize_loop ::
  "environment \<Rightarrow> glyph_font_t \<Rightarrow> bool \<Rightarrow> glyph_encoding_type_t \<Rightarrow> byte list \<Rightarrow> nat \<Rightarrow> nat
     \<Rightarrow> phase1 \<Rightarrow> fault + phase1" where
  "rasterize_loop env font use_sdf char_type charset charset_len i st =
     (if i < charset_len then
        (if char_type = GLYPH_ENCODING_UTF8 then
           (case glyph_atlas_utf8_decode charset (charset_idx st) of
              None \<Rightarrow> Inl OutOfBoundsRead
            | Some (cp, idx') \<Rightarrow>
                rasterize_loop env font use_sdf char_type charset charset_len (i + 1)
                  (rasterize_one env font use_sdf i cp (st\<lparr>charset_idx := idx'\<rparr>)))
         else
           rasterize_loop env font use_sdf char_type charset charset_len (i + 1)
             (rasterize_one env font use_sdf i (uint (charset ! i)) st))
      else Inr st)"
  by pat_completeness auto
termination
  by (relation "measure (\<lambda>(env, font, use_sdf, char_type, charset, n, i, st). n - i)") auto

declare rasterize_loop.simps [simp del]

subsection \<open>Phase 3: packing\<close>

record row_glyph_t =
  rg_index :: nat
  rg_yoff :: int

text \<open>
  The packing state: the image \<^verbatim>\<open>atlas.image\<close>, the locals of the loop and the
  \<^verbatim>\<open>atlas.chars\<close> array. \<open>current_row\<close> is the used part of the array of that name,
  so \<^verbatim>\<open>row_count\<close> is its length.
\<close>

record pack_state =
  pk_image :: glyph_image_t
  atlas_width :: int
  atlas_height :: int
  pen_x :: int
  pen_y :: int
  row_height :: int
  current_row :: "row_glyph_t list"
  pk_chars :: "glyph_atlas_char list"

definition padding :: int where "padding = 4"

subsubsection \<open>The image buffer\<close>

definition INT_MAX :: int where "INT_MAX = 2 ^ 31 - 1"
definition INT_MIN :: int where "INT_MIN = - (2 ^ 31)"

text \<open>The value of an \<^verbatim>\<open>int\<close> expression that does not fit the 32 bits of an \<^verbatim>\<open>int\<close>.\<close>

definition int_overflow :: "int \<Rightarrow> bool" where
  "int_overflow v \<longleftrightarrow> v < INT_MIN \<or> INT_MAX < v"

text \<open>
  \<^verbatim>\<open>atlas.image = glyph_image_create(atlas_width, atlas_height)\<close> followed by
  \<^verbatim>\<open>memset(atlas.image.data, 0, atlas_width * atlas_height * 3)\<close>. The size is an
  \<^verbatim>\<open>int\<close> product, evaluated before the call. The allocation is not checked, so a NULL
  buffer is cleared all the same; a negative size becomes a huge \<^verbatim>\<open>size_t\<close>.
\<close>

definition new_cleared_image :: "environment \<Rightarrow> int \<Rightarrow> int \<Rightarrow> fault + glyph_image_t" where
  "new_cleared_image env image_width image_height =
     (let img = \<lparr>img_width = image_width, img_height = image_height,
                  img_data = image_data_ok env image_width image_height\<rparr>;
          n = image_width * image_height * 3
      in
      if int_overflow (image_width * image_height) \<or> int_overflow n then Inl SignedOverflow
      else if n = 0 then Inr img
      else if \<not> img_data img then Inl NullPointerWrite
      else if n < 0 then Inl OutOfBoundsWrite
      else Inr img)"

text \<open>
  The three bytes written for the pixel \<open>(atlas_x, atlas_y)\<close> start at
  \<^verbatim>\<open>pixel_idx = (atlas_y * image_width + atlas_x) * 3\<close>; the buffer has
  \<open>image_width * image_height * 3\<close> bytes.
\<close>

definition pixel_in_image :: "int \<Rightarrow> int \<Rightarrow> int \<Rightarrow> int \<Rightarrow> bool" where
  "pixel_in_image image_width image_height atlas_x atlas_y \<longleftrightarrow>
     (let pixel_idx = (atlas_y * image_width + atlas_x) * 3
      in 0 \<le> pixel_idx \<and> pixel_idx + 2 < image_width * image_height * 3)"

text \<open>
  Copying a \<open>w\<close> by \<open>h\<close> bitmap to the position \<open>(x0, y0)\<close> writes the pixels
  \<open>(x0 + x, y0 + y)\<close> for \<open>0 \<le> x < w\<close> and \<open>0 \<le> y < h\<close>, without a bounds check. The
  index is linear in \<open>x\<close> and in \<open>y\<close>, so all writes are inside the buffer exactly when those
  of the four corners are (lemma \<open>blit_ok_every_pixel\<close> below). The pixel values are not
  modelled, and the bitmap is taken to have the \<open>w * h\<close> bytes that the loops read.
\<close>

definition blit_ok :: "int \<Rightarrow> int \<Rightarrow> int \<Rightarrow> int \<Rightarrow> int \<Rightarrow> int \<Rightarrow> bool" where
  "blit_ok image_width image_height x0 y0 w h \<longleftrightarrow>
     (if 0 < w \<and> 0 < h then
        pixel_in_image image_width image_height x0 y0
        \<and> pixel_in_image image_width image_height (x0 + (w - 1)) y0
        \<and> pixel_in_image image_width image_height x0 (y0 + (h - 1))
        \<and> pixel_in_image image_width image_height (x0 + (w - 1)) (y0 + (h - 1))
      else True)"

subsubsection \<open>Rows\<close>

definition row_max_yoff :: "temp_glyph_t list \<Rightarrow> row_glyph_t list \<Rightarrow> int" where
  "row_max_yoff tg row =
     foldl (\<lambda>max_yoff r. if yoff (tg ! rg_index r) > max_yoff then yoff (tg ! rg_index r) else max_yoff)
       0 row"

text \<open>
  Closing a row: every glyph of the row is copied into the image \<open>glyph_top\<close> rows below
  its recorded position, where \<open>glyph_top\<close> is the difference between the largest
  \<open>yoff\<close> of the row (or 0) and its own, and its entry then moves down by \<open>glyph_top\<close>.
\<close>

fun blit_row ::
  "temp_glyph_t list \<Rightarrow> int \<Rightarrow> int \<Rightarrow> int \<Rightarrow> row_glyph_t list \<Rightarrow> glyph_atlas_char list
     \<Rightarrow> fault + glyph_atlas_char list" where
  "blit_row tg image_width image_height max_yoff [] cs = Inr cs"
| "blit_row tg image_width image_height max_yoff (r # row) cs =
     (let idx = rg_index r;
          glyph_top = max_yoff - yoff (tg ! idx)
      in
      if \<not> blit_ok image_width image_height (ch_x (cs ! idx)) (ch_y (cs ! idx) + glyph_top)
               (width (tg ! idx)) (height (tg ! idx))
      then Inl OutOfBoundsWrite
      else blit_row tg image_width image_height max_yoff row
             (cs[idx := (cs ! idx)\<lparr>ch_y := ch_y (cs ! idx) + glyph_top\<rparr>]))"

definition align_row ::
  "temp_glyph_t list \<Rightarrow> int \<Rightarrow> int \<Rightarrow> row_glyph_t list \<Rightarrow> glyph_atlas_char list
     \<Rightarrow> fault + glyph_atlas_char list" where
  "align_row tg image_width image_height row cs =
     blit_row tg image_width image_height (row_max_yoff tg row) row cs"

definition close_row :: "temp_glyph_t list \<Rightarrow> pack_state \<Rightarrow> fault + pack_state" where
  "close_row tg st =
     (case align_row tg (atlas_width st) (atlas_height st) (current_row st) (pk_chars st) of
        Inl f \<Rightarrow> Inl f
      | Inr cs \<Rightarrow>
          Inr (st\<lparr>pk_chars := cs,
                 pen_x := padding,
                 pen_y := pen_y st + (row_height st + padding),
                 row_height := 0,
                 current_row := []\<rparr>))"

subsubsection \<open>The loop\<close>

text \<open>The horizontal test: a glyph that does not fit in the row closes the row.\<close>

definition before_fit_test :: "temp_glyph_t list \<Rightarrow> nat \<Rightarrow> pack_state \<Rightarrow> fault + pack_state" where
  "before_fit_test tg i st =
     (if pen_x st + width (tg ! i) + padding > atlas_width st then close_row tg st else Inr st)"

text \<open>
  One iteration of the packing loop: a fault, or the next value of \<^verbatim>\<open>order_idx\<close> and
  the state. Growing the atlas doubles both \<^verbatim>\<open>int\<close> dimensions and creates and clears a
  new image. Placing a glyph writes to the \<^verbatim>\<open>current_row\<close> array, whose allocation is
  not checked.
\<close>

definition pack_step ::
  "environment \<Rightarrow> temp_glyph_t list \<Rightarrow> nat list \<Rightarrow> nat \<Rightarrow> pack_state \<Rightarrow> fault + nat \<times> pack_state" where
  "pack_step env tg glyph_order order_idx st =
     (let i = glyph_order ! order_idx in
      if \<not> bitmap (tg ! i) \<or> width (tg ! i) = 0 then
        Inr (order_idx + 1,
             st\<lparr>pk_chars := (pk_chars st)[i := (pk_chars st ! i)
               \<lparr>ch_x := 0, ch_y := 0, ch_width := 0, ch_height := 0, ch_xoff := 0, ch_yoff := 0\<rparr>]\<rparr>)
      else
        case before_fit_test tg i st of
          Inl f \<Rightarrow> Inl f
        | Inr st \<Rightarrow>
            if pen_y st + height (tg ! i) + padding > atlas_height st then
              (let atlas_width' = atlas_width st * 2;
                   atlas_height' = atlas_height st * 2
               in
               if int_overflow atlas_width' \<or> int_overflow atlas_height' then Inl SignedOverflow
               else
                 case new_cleared_image env atlas_width' atlas_height' of
                   Inl f \<Rightarrow> Inl f
                 | Inr img \<Rightarrow>
                     Inr (0,
                          st\<lparr>pk_image := img,
                             atlas_width := atlas_width',
                             atlas_height := atlas_height',
                             pen_x := padding,
                             pen_y := padding,
                             row_height := 0,
                             current_row := []\<rparr>))
            else if \<not> malloc_current_row_ok env then Inl NullPointerWrite
            else
              Inr (order_idx + 1,
                   st\<lparr>current_row := current_row st @ [\<lparr>rg_index = i, rg_yoff = yoff (tg ! i)\<rparr>],
                      pk_chars := (pk_chars st)[i := (pk_chars st ! i)
                        \<lparr>ch_x := pen_x st, ch_y := pen_y st, ch_width := width (tg ! i),
                         ch_height := height (tg ! i), ch_xoff := xoff (tg ! i), ch_yoff := yoff (tg ! i)\<rparr>],
                      row_height := (if height (tg ! i) > row_height st then height (tg ! i) else row_height st),
                      pen_x := pen_x st + (width (tg ! i) + padding * 2)\<rparr>))"

text \<open>
  The packing loop. A failed vertical fit sets \<^verbatim>\<open>order_idx = -1\<close> and continues, so the
  next iteration runs at index 0. The loop is not bounded by its counter; not returning is
  \<open>None\<close>, a fault ends it.
\<close>

partial_function (option) pack_loop ::
  "environment \<Rightarrow> temp_glyph_t list \<Rightarrow> nat list \<Rightarrow> nat \<Rightarrow> pack_state \<Rightarrow> (fault + pack_state) option" where
  "pack_loop env tg glyph_order order_idx st =
     (if order_idx < length glyph_order then
        (case pack_step env tg glyph_order order_idx st of
           Inl f \<Rightarrow> Some (Inl f)
         | Inr (order_idx', st') \<Rightarrow> pack_loop env tg glyph_order order_idx' st')
      else Some (Inr st))"

declare pack_loop.simps [code]

definition initial_pack_state :: "glyph_image_t \<Rightarrow> int \<Rightarrow> int \<Rightarrow> glyph_atlas_char list \<Rightarrow> pack_state" where
  "initial_pack_state img w h cs =
     \<lparr>pk_image = img, atlas_width = w, atlas_height = h, pen_x = padding, pen_y = padding,
      row_height = 0, current_row = [], pk_chars = cs\<rparr>"

text \<open>
  The first atlas size: \<^verbatim>\<open>next_pow2((int)sqrtf(total_width * max_height) + 256)\<close> for
  both dimensions, each raised to its configured minimum.
\<close>

definition initial_atlas_size :: "environment \<Rightarrow> int \<Rightarrow> int \<Rightarrow> int \<times> int" where
  "initial_atlas_size env total_w max_h =
     (let atlas_width = sint (glyph_atlas__next_pow2 (word_of_int (int_sqrtf env (total_w * max_h) + 256)));
          atlas_height = atlas_width;
          atlas_width = (if atlas_width < GLYPHGL_ATLAS_WIDTH then GLYPHGL_ATLAS_WIDTH else atlas_width);
          atlas_height = (if atlas_height < GLYPHGL_ATLAS_HEIGHT then GLYPHGL_ATLAS_HEIGHT else atlas_height)
      in (atlas_width, atlas_height))"

text \<open>After the loop the last row, if it has glyphs, is copied and aligned like the others.\<close>

definition finish_pack :: "temp_glyph_t list \<Rightarrow> pack_state \<Rightarrow> fault + pack_state" where
  "finish_pack tg st =
     (if length (current_row st) > 0 then
        (case align_row tg (atlas_width st) (atlas_height st) (current_row st) (pk_chars st) of
           Inl f \<Rightarrow> Inl f
         | Inr cs \<Rightarrow> Inr (st\<lparr>pk_chars := cs\<rparr>))
      else Inr st)"

subsection \<open>The function\<close>

text \<open>
  The result is \<open>None\<close> when the call never returns, \<open>Some (Inl f)\<close> when it runs into
  the fault \<open>f\<close> (undefined behaviour in C, a crash in practice), and \<open>Some (Inr atlas)\<close>
  for the returned structure. The \<^verbatim>\<open>temp_glyphs\<close> array starts from zeros here: phase 1
  assigns every field of every element before anything reads it. The \<^verbatim>\<open>chars\<close> array
  starts from the uninitialised content that the environment gives. The \<^verbatim>\<open>int\<close>
  products \<^verbatim>\<open>total_width * max_height\<close> and \<^verbatim>\<open>atlas_width * atlas_height * 3\<close> and
  the doubling of the atlas are checked for overflow; the sums of pixel positions and
  sizes are not.
\<close>

definition glyph_atlas_create ::
  "environment \<Rightarrow> string \<Rightarrow> real \<Rightarrow> byte list option \<Rightarrow> glyph_encoding_type_t \<Rightarrow> bool
     \<Rightarrow> (fault + glyph_atlas_t) option" where
  "glyph_atlas_create env font_path pixel_height' charset' char_type use_sdf =
     (let atlas = zero_atlas in
      case load_font env font_path of
        None \<Rightarrow> Some (Inr atlas)
      | Some font \<Rightarrow>
          let atlas = atlas\<lparr>pixel_height := pixel_height'\<rparr>;
              charset = (case charset' of None \<Rightarrow> default_charset | Some cs \<Rightarrow> cs)
          in
          case count_charset char_type charset of
            Inl f \<Rightarrow> Some (Inl f)
          | Inr charset_len \<Rightarrow>
              let atlas = atlas\<lparr>num_chars := int charset_len\<rparr> in
              if \<not> malloc_chars_ok env then Some (Inr atlas)
              else if \<not> malloc_temp_glyphs_ok env then Some (Inr atlas)
              else
                case rasterize_loop env font use_sdf char_type charset charset_len 0
                       \<lparr>charset_idx = 0,
                        temp_glyphs = replicate charset_len
                          \<lparr>bitmap = False, width = 0, height = 0, xoff = 0, yoff = 0,
                           advance = 0, is_default = 0\<rparr>,
                        p1_chars = map (uninitialised_char env) [0..<charset_len],
                        total_width = 0, max_height = 0\<rparr> of
                  Inl f \<Rightarrow> Some (Inl f)
                | Inr p1 \<Rightarrow>
                    if \<not> malloc_glyph_order_ok env then Some (Inr atlas)
                    else
                      let tg = temp_glyphs p1;
                          glyph_order = sort_glyph_order tg charset_len
                      in
                      if int_overflow (total_width p1 * max_height p1) then Some (Inl SignedOverflow)
                      else
                        let (w, h) = initial_atlas_size env (total_width p1) (max_height p1) in
                        case new_cleared_image env w h of
                          Inl f \<Rightarrow> Some (Inl f)
                        | Inr img \<Rightarrow>
                            (case pack_loop env tg glyph_order 0 (initial_pack_state img w h (p1_chars p1)) of
                               None \<Rightarrow> None
                             | Some (Inl f) \<Rightarrow> Some (Inl f)
                             | Some (Inr st) \<Rightarrow>
                                 (case finish_pack tg st of
                                    Inl f \<Rightarrow> Some (Inl f)
                                  | Inr st \<Rightarrow>
                                      Some (Inr (atlas\<lparr>image := pk_image st,
                                                        chars := Some (pk_chars st)\<rparr>)))))"

subsection \<open>The packing loop ends\<close>


text \<open>
  The copy of a bitmap stays inside the buffer exactly when its four corners do: the
  corner test of \<open>blit_ok\<close> decides what the two nested loops of the source do.
\<close>

lemma blit_ok_every_pixel:
  "blit_ok iw ih x0 y0 w h \<longleftrightarrow>
     (\<forall>x y. 0 \<le> x \<and> x < w \<and> 0 \<le> y \<and> y < h \<longrightarrow> pixel_in_image iw ih (x0 + x) (y0 + y))"
proof (cases "0 < w \<and> 0 < h")
  case False
  then show ?thesis by (auto simp: blit_ok_def)
next
  case True
  define c where "c = (h - 1) * iw"
  have ec: "(y0 + (h - 1)) * iw = y0 * iw + c" by (simp add: c_def algebra_simps)
  show ?thesis
  proof
    assume a: "\<forall>x y. 0 \<le> x \<and> x < w \<and> 0 \<le> y \<and> y < h \<longrightarrow> pixel_in_image iw ih (x0 + x) (y0 + y)"
    from a [rule_format, of 0 0] a [rule_format, of "w - 1" 0]
      a [rule_format, of 0 "h - 1"] a [rule_format, of "w - 1" "h - 1"] True
    show "blit_ok iw ih x0 y0 w h" by (simp add: blit_ok_def)
  next
    assume b: "blit_ok iw ih x0 y0 w h"
    from b True have c1: "0 \<le> (y0 * iw + x0) * 3" "(y0 * iw + x0) * 3 + 2 < iw * ih * 3"
      and c2: "0 \<le> (y0 * iw + (x0 + (w - 1))) * 3" "(y0 * iw + (x0 + (w - 1))) * 3 + 2 < iw * ih * 3"
      and c3: "0 \<le> (y0 * iw + c + x0) * 3" "(y0 * iw + c + x0) * 3 + 2 < iw * ih * 3"
      and c4: "0 \<le> (y0 * iw + c + (x0 + (w - 1))) * 3"
        "(y0 * iw + c + (x0 + (w - 1))) * 3 + 2 < iw * ih * 3"
      by (simp_all add: blit_ok_def pixel_in_image_def Let_def ec)
    show "\<forall>x y. 0 \<le> x \<and> x < w \<and> 0 \<le> y \<and> y < h \<longrightarrow> pixel_in_image iw ih (x0 + x) (y0 + y)"
    proof (intro allI impI)
      fix x y
      assume r: "0 \<le> x \<and> x < w \<and> 0 \<le> y \<and> y < h"
      define a where "a = y * iw"
      have ea: "(y0 + y) * iw = y0 * iw + a" by (simp add: a_def algebra_simps)
      have ac: "(0 \<le> a \<and> a \<le> c) \<or> (c \<le> a \<and> a \<le> 0)"
      proof (cases "0 \<le> iw")
        case True
        with r have "0 \<le> y * iw" and "y * iw \<le> (h - 1) * iw"
          by (simp_all add: mult_right_mono)
        then show ?thesis by (simp add: a_def c_def)
      next
        case False
        then have n: "iw \<le> 0" by simp
        with r have "y * iw \<le> 0" and "(h - 1) * iw \<le> y * iw"
          by (simp_all add: mult_nonneg_nonpos mult_right_mono_neg)
        then show ?thesis by (simp add: a_def c_def)
      qed
      from r have rx: "0 \<le> x" "x < w" by simp_all
      have "0 \<le> (y0 * iw + a + (x0 + x)) * 3 \<and> (y0 * iw + a + (x0 + x)) * 3 + 2 < iw * ih * 3"
        using ac
      proof
        assume "0 \<le> a \<and> a \<le> c"
        then have up: "0 \<le> a" "a \<le> c" by simp_all
        have "0 \<le> (y0 * iw + a + (x0 + x)) * 3" using c1(1) up rx by simp
        moreover have "(y0 * iw + a + (x0 + x)) * 3 + 2 < iw * ih * 3" using c4(2) up rx by simp
        ultimately show ?thesis by simp
      next
        assume "c \<le> a \<and> a \<le> 0"
        then have down: "c \<le> a" "a \<le> 0" by simp_all
        have "0 \<le> (y0 * iw + a + (x0 + x)) * 3" using c3(1) down rx by simp
        moreover have "(y0 * iw + a + (x0 + x)) * 3 + 2 < iw * ih * 3" using c2(2) down rx by simp
        ultimately show ?thesis by simp
      qed
      then show "pixel_in_image iw ih (x0 + x) (y0 + y)"
        by (simp add: pixel_in_image_def Let_def ea)
    qed
  qed
qed

text \<open>Copying and aligning a row keeps the size of the \<^verbatim>\<open>chars\<close> array.\<close>

lemma blit_row_length:
  "blit_row tg iw ih m row cs = Inr cs' \<Longrightarrow> length cs' = length cs"
  by (induction row arbitrary: cs) (auto simp: Let_def split: if_splits)

lemma align_row_length:
  "align_row tg iw ih row cs = Inr cs' \<Longrightarrow> length cs' = length cs"
  by (simp add: align_row_def blit_row_length)

lemma close_row_Inr:
  "close_row tg st = Inr st' \<Longrightarrow>
     atlas_width st' = atlas_width st \<and> atlas_height st' = atlas_height st
     \<and> length (pk_chars st') = length (pk_chars st)"
  by (auto simp: close_row_def split: sum.splits dest: align_row_length)

lemma before_fit_test_Inr:
  "before_fit_test tg i st = Inr st' \<Longrightarrow>
     atlas_width st' = atlas_width st \<and> atlas_height st' = atlas_height st
     \<and> length (pk_chars st') = length (pk_chars st)"
  by (auto simp: before_fit_test_def split: if_splits dest: close_row_Inr)

text \<open>
  An iteration that does not fault either moves to the next glyph at the same size, or
  doubles both dimensions, within the range of \<^verbatim>\<open>int\<close>, and restarts.
\<close>

lemma pack_step_cases:
  assumes "pack_step env tg ord idx st = Inr (idx', st')"
  shows "length (pk_chars st') = length (pk_chars st)
       \<and> (idx' = idx + 1 \<and> atlas_width st' = atlas_width st \<and> atlas_height st' = atlas_height st
          \<or> idx' = 0 \<and> atlas_width st' = 2 * atlas_width st \<and> atlas_height st' = 2 * atlas_height st
            \<and> \<not> int_overflow (2 * atlas_width st))"
proof (cases "\<not> bitmap (tg ! (ord ! idx)) \<or> width (tg ! (ord ! idx)) = 0")
  case True
  with assms show ?thesis by (auto simp: pack_step_def Let_def)
next
  case False
  with assms obtain st1 where b: "before_fit_test tg (ord ! idx) st = Inr st1"
    by (cases "before_fit_test tg (ord ! idx) st") (simp_all add: pack_step_def Let_def)
  note k = before_fit_test_Inr [OF b]
  from assms False b k show ?thesis
    by (auto simp: pack_step_def Let_def mult.commute split: if_splits sum.splits)
qed

text \<open>
  The packing loop always ends, in a fault or in a state: the atlas only grows, by
  doubling, and cannot grow beyond the range of \<^verbatim>\<open>int\<close>. The \<^verbatim>\<open>chars\<close> array keeps
  its size.
\<close>

lemma pack_loop_returns_pair:
  assumes "0 < atlas_width (snd p)"
  shows "\<exists>r. pack_loop env tg ord (fst p) (snd p) = Some r
           \<and> (\<forall>st'. r = Inr st' \<longrightarrow> length (pk_chars st') = length (pk_chars (snd p)))"
  using assms
proof (induction p rule: wf_induct_rule [OF wf_measures
      [of "[\<lambda>p. nat (INT_MAX - atlas_width (snd p)), \<lambda>p. length ord - fst p]"]])
  case (1 p)
  obtain idx st where p: "p = (idx, st)" by (cases p)
  note pos = "1.prems" [unfolded p snd_conv]
  have "\<exists>r. pack_loop env tg ord idx st = Some r
           \<and> (\<forall>st'. r = Inr st' \<longrightarrow> length (pk_chars st') = length (pk_chars st))"
  proof (cases "idx < length ord")
    case False
    then show ?thesis by (subst pack_loop.simps) simp
  next
    case True
    show ?thesis
    proof (cases "pack_step env tg ord idx st")
      case (Inl f)
      with True show ?thesis by (subst pack_loop.simps) simp
    next
      case (Inr q)
      obtain idx' st' where q: "q = (idx', st')" by (cases q)
      from pack_step_cases [OF Inr [unfolded q]]
      have len': "length (pk_chars st') = length (pk_chars st)"
        and c: "idx' = idx + 1 \<and> atlas_width st' = atlas_width st
          \<or> idx' = 0 \<and> atlas_width st' = 2 * atlas_width st \<and> \<not> int_overflow (2 * atlas_width st)"
        by auto
      have dec: "((idx', st'), p) \<in> measures [\<lambda>p. nat (INT_MAX - atlas_width (snd p)),
                                                \<lambda>p. length ord - fst p]"
        using c True pos by (auto simp: p int_overflow_def)
      have pos': "0 < atlas_width (snd (idx', st'))" using c pos by auto
      from "1.IH" [OF dec pos']
      obtain r where r: "pack_loop env tg ord idx' st' = Some r"
        "\<forall>st''. r = Inr st'' \<longrightarrow> length (pk_chars st'') = length (pk_chars st')"
        by auto
      have "pack_loop env tg ord idx st = Some r"
        using True Inr q r(1) by (subst pack_loop.simps) simp
      with r(2) len' show ?thesis by simp
    qed
  qed
  then show ?case by (simp add: p)
qed

lemma pack_loop_returns:
  assumes "0 < atlas_width st"
  shows "\<exists>r. pack_loop env tg ord idx st = Some r
           \<and> (\<forall>st'. r = Inr st' \<longrightarrow> length (pk_chars st') = length (pk_chars st))"
  using pack_loop_returns_pair [of "(idx, st)" env tg ord] assms by simp

lemma initial_pack_state_sel [simp]:
  "atlas_width (initial_pack_state img w h cs) = w"
  "atlas_height (initial_pack_state img w h cs) = h"
  "pk_chars (initial_pack_state img w h cs) = cs"
  "pk_image (initial_pack_state img w h cs) = img"
  by (simp_all add: initial_pack_state_def)

text \<open>
  What the source does when a glyph with a bitmap fails the vertical fit test, as long as
  nothing overflows and the new image can be cleared: both dimensions double, the image
  is replaced, pen and row are reset and the loop continues at the first glyph.
\<close>

lemma vertical_fit_failure_restarts:
  assumes "bitmap (tg ! (ord ! idx))" and "width (tg ! (ord ! idx)) \<noteq> 0"
    and "before_fit_test tg (ord ! idx) st = Inr st1"
    and "pen_y st1 + height (tg ! (ord ! idx)) + padding > atlas_height st1"
    and "\<not> int_overflow (atlas_width st * 2)" and "\<not> int_overflow (atlas_height st * 2)"
    and "new_cleared_image env (atlas_width st * 2) (atlas_height st * 2) = Inr img"
  shows "pack_step env tg ord idx st =
           Inr (0, st1\<lparr>pk_image := img, atlas_width := atlas_width st * 2,
                      atlas_height := atlas_height st * 2, pen_x := padding, pen_y := padding,
                      row_height := 0, current_row := []\<rparr>)"
  using assms before_fit_test_Inr [OF assms(3)] by (simp add: pack_step_def Let_def)

text \<open>An atlas of 32768 by 32768 pixels cannot be cleared: the size of its buffer is no \<^verbatim>\<open>int\<close>.\<close>

lemma new_cleared_image_32768:
  "new_cleared_image env 32768 32768 = Inl SignedOverflow"
  by (simp add: new_cleared_image_def Let_def int_overflow_def INT_MAX_def INT_MIN_def)

lemma rasterize_one_lengths:
  "length (temp_glyphs (rasterize_one env font use_sdf i cp st)) = length (temp_glyphs st)
   \<and> length (p1_chars (rasterize_one env font use_sdf i cp st)) = length (p1_chars st)"
  by (simp add: rasterize_one_def Let_def)

lemma rasterize_loop_lengths:
  "rasterize_loop env font use_sdf ct charset n i st = Inr st' \<Longrightarrow>
     length (temp_glyphs st') = length (temp_glyphs st) \<and> length (p1_chars st') = length (p1_chars st)"
proof (induction env font use_sdf ct charset n i st rule: rasterize_loop.induct)
  case (1 env font use_sdf ct charset n i st)
  show ?case
  proof (cases "i < n")
    case False
    with "1.prems" show ?thesis by (subst (asm) rasterize_loop.simps) simp
  next
    case True
    show ?thesis
    proof (cases "ct = GLYPH_ENCODING_UTF8")
      case utf: True
      with True "1.prems" obtain cp idx' where
        d: "glyph_atlas_utf8_decode charset (charset_idx st) = Some (cp, idx')"
        and r: "rasterize_loop env font use_sdf ct charset n (i + 1)
                  (rasterize_one env font use_sdf i cp (st\<lparr>charset_idx := idx'\<rparr>)) = Inr st'"
        by (subst (asm) rasterize_loop.simps) (auto split: option.splits)
      from "1.IH"(1) [OF True utf d refl r] show ?thesis
        by (simp add: rasterize_one_lengths)
    next
      case False
      with True "1.prems" have
        r: "rasterize_loop env font use_sdf ct charset n (i + 1)
                  (rasterize_one env font use_sdf i (uint (charset ! i)) st) = Inr st'"
        by (subst (asm) rasterize_loop.simps) simp
      from "1.IH"(2) [OF True False r] show ?thesis
        by (simp add: rasterize_one_lengths)
    qed
  qed
qed

lemma initial_atlas_size_square:
  "\<exists>side. 0 < side \<and> initial_atlas_size env tw mh = (side, side)"
  by (simp add: initial_atlas_size_def Let_def GLYPHGL_ATLAS_WIDTH_def GLYPHGL_ATLAS_HEIGHT_def)

lemma pack_after_rasterize:
  assumes "rasterize_loop env font use_sdf char_type cs n 0
                       \<lparr>charset_idx = 0,
                        temp_glyphs = replicate n
                          \<lparr>bitmap = False, width = 0, height = 0, xoff = 0, yoff = 0,
                           advance = 0, is_default = 0\<rparr>,
                        p1_chars = map (uninitialised_char env) [0..<n],
                        total_width = 0, max_height = 0\<rparr> = Inr p1"
    and "initial_atlas_size env (total_width p1) (max_height p1) = (w, h)"
  shows "\<exists>r. pack_loop env tg ord 0 (initial_pack_state img w h (p1_chars p1)) = Some r
         \<and> (\<forall>st'. r = Inr st' \<longrightarrow> length (pk_chars st') = n)"
proof -
  from rasterize_loop_lengths [OF assms(1)] have len: "length (p1_chars p1) = n" by simp
  from initial_atlas_size_square [of env "total_width p1" "max_height p1"] assms(2)
  have pos: "0 < w" by auto
  from pack_loop_returns [of "initial_pack_state img w h (p1_chars p1)" env tg ord 0] pos len
  show ?thesis by simp
qed

lemma finish_pack_length:
  "finish_pack tg st = Inr st' \<Longrightarrow> length (pk_chars st') = length (pk_chars st)"
  by (auto simp: finish_pack_def split: if_splits sum.splits dest: align_row_length)

text \<open>
  A call of \<open>glyph_atlas_create\<close> always ends: it returns a structure or runs into a
  fault, and never repeats the growing of the atlas forever.
\<close>

lemma glyph_atlas_create_returns:
  "glyph_atlas_create env font_path ph charset char_type use_sdf \<noteq> None"
proof -
  have h: False
    if "rasterize_loop env font use_sdf char_type cs n 0
                       \<lparr>charset_idx = 0,
                        temp_glyphs = replicate n
                          \<lparr>bitmap = False, width = 0, height = 0, xoff = 0, yoff = 0,
                           advance = 0, is_default = 0\<rparr>,
                        p1_chars = map (uninitialised_char env) [0..<n],
                        total_width = 0, max_height = 0\<rparr> = Inr p1"
      and "initial_atlas_size env (total_width p1) (max_height p1) = (w, h)"
      and "pack_loop env tg ord 0 (initial_pack_state img w h (p1_chars p1)) = None"
    for font cs n p1 w h tg ord img
    using pack_after_rasterize [OF that(1,2), of tg ord img] that(3) by auto
  show ?thesis
    by (auto simp: glyph_atlas_create_def Let_def split: option.splits sum.splits prod.splits
        dest: h)
qed

text \<open>Every atlas that \<open>glyph_atlas_create\<close> returns has \<open>num_chars\<close> entries or none.\<close>

lemma glyph_atlas_create_wf:
  assumes "glyph_atlas_create env font_path ph charset char_type use_sdf = Some (Inr atlas)"
  shows "atlas_wf atlas"
proof -
  have h: "length (pk_chars st') = n"
    if "rasterize_loop env font use_sdf char_type cs n 0
                       \<lparr>charset_idx = 0,
                        temp_glyphs = replicate n
                          \<lparr>bitmap = False, width = 0, height = 0, xoff = 0, yoff = 0,
                           advance = 0, is_default = 0\<rparr>,
                        p1_chars = map (uninitialised_char env) [0..<n],
                        total_width = 0, max_height = 0\<rparr> = Inr p1"
      and "initial_atlas_size env (total_width p1) (max_height p1) = (w, h)"
      and "pack_loop env tg ord 0 (initial_pack_state img w h (p1_chars p1)) = Some (Inr st)"
      and "finish_pack tg' st = Inr st'"
    for font cs n p1 w h tg ord img st tg' st'
    using pack_after_rasterize [OF that(1,2), of tg ord img] that(3) finish_pack_length [OF that(4)]
    by auto
  from assms show ?thesis
    by (auto simp: glyph_atlas_create_def Let_def atlas_wf_def zero_atlas_def
        split: option.splits sum.splits if_splits prod.splits dest!: h)
qed

subsection \<open>The charset as a list of codepoints\<close>

text \<open>
  The codepoints of a charset, in order and with repetitions: what the loops of
  \<open>glyph_atlas_create\<close> decode, one codepoint per UTF-8 sequence when the encoding is
  UTF-8 and one per byte otherwise.
\<close>

function utf8_codepoints :: "byte list \<Rightarrow> nat \<Rightarrow> fault + int list" where
  "utf8_codepoints charset idx =
     (if idx < length charset then
        (case glyph_atlas_utf8_decode charset idx of
           None \<Rightarrow> Inl OutOfBoundsRead
         | Some (cp, idx') \<Rightarrow>
             (case utf8_codepoints charset idx' of
                Inl f \<Rightarrow> Inl f
              | Inr cps \<Rightarrow> Inr (cp # cps)))
      else Inr [])"
  by pat_completeness auto
termination
  by (relation "measure (\<lambda>(charset, idx). length charset - idx)")
     (auto dest: atlas_decode_advances)

declare utf8_codepoints.simps [simp del]

definition charset_codepoints :: "glyph_encoding_type_t \<Rightarrow> byte list \<Rightarrow> fault + int list" where
  "charset_codepoints char_type charset =
     (if char_type = GLYPH_ENCODING_UTF8 then utf8_codepoints charset 0
      else Inr (map uint charset))"

lemma utf8_count_codepoints:
  "utf8_count charset idx n = Inr m \<Longrightarrow>
     \<exists>cps. utf8_codepoints charset idx = Inr cps \<and> m = n + length cps"
proof (induction charset idx n rule: utf8_count.induct)
  case (1 charset idx n)
  show ?case
  proof (cases "idx < length charset")
    case False
    with "1.prems" show ?thesis
      by (subst utf8_codepoints.simps, subst (asm) utf8_count.simps) simp
  next
    case True
    with "1.prems" obtain cp idx' where
      d: "glyph_atlas_utf8_decode charset idx = Some (cp, idx')"
      and r: "utf8_count charset idx' (n + 1) = Inr m"
      by (subst (asm) utf8_count.simps) (auto split: option.splits)
    from "1.IH" [OF True d refl r] obtain cps where
      "utf8_codepoints charset idx' = Inr cps" "m = n + 1 + length cps"
      by blast
    with True d show ?thesis
      by (subst utf8_codepoints.simps) simp
  qed
qed

lemma count_charset_codepoints:
  "count_charset char_type charset = Inr n \<Longrightarrow>
     \<exists>cps. charset_codepoints char_type charset = Inr cps \<and> n = length cps"
  using utf8_count_codepoints [of charset 0 0 n]
  by (auto simp: count_charset_def charset_codepoints_def split: if_splits)

subsection \<open>Rectangles\<close>

text \<open>
  The pixel rectangle \<open>[x, x+width) \<times> [y, y+height)\<close> of an entry: when two of them share
  a pixel, and when one lies inside the image.
\<close>

definition rect_overlap :: "glyph_atlas_char \<Rightarrow> glyph_atlas_char \<Rightarrow> bool" where
  "rect_overlap a b \<longleftrightarrow>
     max (ch_x a) (ch_x b) < min (ch_x a + ch_width a) (ch_x b + ch_width b)
     \<and> max (ch_y a) (ch_y b) < min (ch_y a + ch_height a) (ch_y b + ch_height b)"

definition rect_inside :: "glyph_image_t \<Rightarrow> glyph_atlas_char \<Rightarrow> bool" where
  "rect_inside img c \<longleftrightarrow>
     0 \<le> ch_x c \<and> ch_x c + ch_width c \<le> img_width img
     \<and> 0 \<le> ch_y c \<and> ch_y c + ch_height c \<le> img_height img"

subsection \<open>Example fonts and environments\<close>

text \<open>
  A font with glyphs for the printable ASCII characters, each a 10 by 12 bitmap, and
  nothing else.
\<close>

definition ascii_font :: glyph_font_t where
  "ascii_font =
     \<lparr>find_glyph_index = (\<lambda>cp. if 32 \<le> cp \<and> cp < 127 then cp - 31 else 0),
      get_glyph_bitmap = (\<lambda>g. \<lparr>bm_data = True, bm_width = 10, bm_height = 12, bm_xoff = 1, bm_yoff = 12\<rparr>),
      sdf_bitmap_ok = (\<lambda>g. True),
      scaled_advance = (\<lambda>g. 11)\<rparr>"

text \<open>
  A font at pixel height 1000 with four wide, flat glyphs (such as dashes) for the letters A
  to D, 1000 by 10 pixels each; the first sits 20 pixels higher over the baseline than the
  others.
\<close>

definition dash_font :: glyph_font_t where
  "dash_font =
     \<lparr>find_glyph_index = (\<lambda>cp. if 65 \<le> cp \<and> cp \<le> 68 then cp - 64 else 0),
      get_glyph_bitmap = (\<lambda>g. \<lparr>bm_data = True, bm_width = 1000, bm_height = 10, bm_xoff = 0,
                                bm_yoff = (if g = 1 then 20 else 0)\<rparr>),
      sdf_bitmap_ok = (\<lambda>g. True),
      scaled_advance = (\<lambda>g. 1001)\<rparr>"

text \<open>A font whose single glyph, for the letter A, is 3000 pixels wide and 10 high.\<close>

definition wide_font :: glyph_font_t where
  "wide_font =
     \<lparr>find_glyph_index = (\<lambda>cp. if cp = 65 then 1 else 0),
      get_glyph_bitmap = (\<lambda>g. \<lparr>bm_data = True, bm_width = 3000, bm_height = 10, bm_xoff = 0, bm_yoff = 10\<rparr>),
      sdf_bitmap_ok = (\<lambda>g. True),
      scaled_advance = (\<lambda>g. 3001)\<rparr>"

text \<open>
  The fresh \<^verbatim>\<open>chars\<close> array holds whatever the allocator left there; here every field
  of every entry is 12345.
\<close>

definition stale_char :: glyph_atlas_char where
  "stale_char = \<lparr>codepoint = 12345, ch_x = 12345, ch_y = 12345, ch_width = 12345,
     ch_height = 12345, ch_xoff = 12345, ch_yoff = 12345, ch_advance = 12345\<rparr>"

text \<open>
  An environment in which everything succeeds. \<open>half\<close> is \<^verbatim>\<open>(int)(pixel_height * 0.5f)\<close>
  and \<open>est\<close> is the value of \<^verbatim>\<open>(int)sqrtf(total_width * max_height)\<close> in the call.
\<close>

definition good_env :: "glyph_font_t \<Rightarrow> int \<Rightarrow> int \<Rightarrow> environment" where
  "good_env font half est =
     \<lparr>load_font = (\<lambda>path. Some font), half_pixel_height = half, int_sqrtf = (\<lambda>x. est),
      malloc_chars_ok = True, malloc_temp_glyphs_ok = True, malloc_glyph_order_ok = True,
      malloc_current_row_ok = True, image_data_ok = (\<lambda>w h. True),
      uninitialised_char = (\<lambda>i. stale_char)\<rparr>"

subsection \<open>The claims about \<open>glyph_atlas_create\<close>\<close>

text \<open>
  Claim C1 (the code departs from it). With the four dash glyphs the first row holds A and
  B and the second C and D. Closing the first row moves B down by 20 pixels, to rows 24 to
  33, while the second row starts at row 18, only \<open>row_height + padding = 14\<close> below the
  first: the rectangles of B and D, in the same columns, share the rows 24 to 27. And the
  3000 pixel wide glyph closes the empty first row and is then placed at column 4 of an
  atlas that is 2048 pixels wide.
  (\<^verbatim>\<open>(int)sqrtf(4016 * 10)\<close> is 200 and \<^verbatim>\<open>(int)sqrtf(3004 * 10)\<close> is 173.)
\<close>

theorem atlas_rectangles_overlap_and_leave_image:
  "glyph_atlas_create (good_env dash_font 500 200) ''dash.ttf'' 1000 (Some [65, 66, 67, 68])
      GLYPH_ENCODING_ASCII False
   = Some (Inr \<lparr>image = \<lparr>img_width = 2048, img_height = 2048, img_data = True\<rparr>,
        chars = Some
          [\<lparr>codepoint = 65, ch_x = 4, ch_y = 4, ch_width = 1000, ch_height = 10,
             ch_xoff = 0, ch_yoff = 20, ch_advance = 1001\<rparr>,
           \<lparr>codepoint = 66, ch_x = 1012, ch_y = 24, ch_width = 1000, ch_height = 10,
             ch_xoff = 0, ch_yoff = 0, ch_advance = 1001\<rparr>,
           \<lparr>codepoint = 67, ch_x = 4, ch_y = 18, ch_width = 1000, ch_height = 10,
             ch_xoff = 0, ch_yoff = 0, ch_advance = 1001\<rparr>,
           \<lparr>codepoint = 68, ch_x = 1012, ch_y = 18, ch_width = 1000, ch_height = 10,
             ch_xoff = 0, ch_yoff = 0, ch_advance = 1001\<rparr>],
        num_chars = 4, pixel_height = 1000\<rparr>)
   \<and> rect_overlap
        \<lparr>codepoint = 66, ch_x = 1012, ch_y = 24, ch_width = 1000, ch_height = 10,
          ch_xoff = 0, ch_yoff = 0, ch_advance = 1001\<rparr>
        \<lparr>codepoint = 68, ch_x = 1012, ch_y = 18, ch_width = 1000, ch_height = 10,
          ch_xoff = 0, ch_yoff = 0, ch_advance = 1001\<rparr>
   \<and> glyph_atlas_create (good_env wide_font 1500 173) ''wide.ttf'' 3000 (Some [65])
        GLYPH_ENCODING_ASCII False
     = Some (Inr \<lparr>image = \<lparr>img_width = 2048, img_height = 2048, img_data = True\<rparr>,
        chars = Some
          [\<lparr>codepoint = 65, ch_x = 4, ch_y = 8, ch_width = 3000, ch_height = 10,
             ch_xoff = 0, ch_yoff = 10, ch_advance = 3001\<rparr>],
        num_chars = 1, pixel_height = 3000\<rparr>)
   \<and> \<not> rect_inside \<lparr>img_width = 2048, img_height = 2048, img_data = True\<rparr>
        \<lparr>codepoint = 65, ch_x = 4, ch_y = 8, ch_width = 3000, ch_height = 10,
          ch_xoff = 0, ch_yoff = 10, ch_advance = 3001\<rparr>"
proof -
  have a: "glyph_atlas_create (good_env dash_font 500 200) ''dash.ttf'' 1000 (Some [65, 66, 67, 68])
      GLYPH_ENCODING_ASCII False
   = Some (Inr \<lparr>image = \<lparr>img_width = 2048, img_height = 2048, img_data = True\<rparr>,
        chars = Some
          [\<lparr>codepoint = 65, ch_x = 4, ch_y = 4, ch_width = 1000, ch_height = 10,
             ch_xoff = 0, ch_yoff = 20, ch_advance = 1001\<rparr>,
           \<lparr>codepoint = 66, ch_x = 1012, ch_y = 24, ch_width = 1000, ch_height = 10,
             ch_xoff = 0, ch_yoff = 0, ch_advance = 1001\<rparr>,
           \<lparr>codepoint = 67, ch_x = 4, ch_y = 18, ch_width = 1000, ch_height = 10,
             ch_xoff = 0, ch_yoff = 0, ch_advance = 1001\<rparr>,
           \<lparr>codepoint = 68, ch_x = 1012, ch_y = 18, ch_width = 1000, ch_height = 10,
             ch_xoff = 0, ch_yoff = 0, ch_advance = 1001\<rparr>],
        num_chars = 4, pixel_height = 1000\<rparr>)"
    by code_simp
  have b: "rect_overlap
        \<lparr>codepoint = 66, ch_x = 1012, ch_y = 24, ch_width = 1000, ch_height = 10,
          ch_xoff = 0, ch_yoff = 0, ch_advance = 1001\<rparr>
        \<lparr>codepoint = 68, ch_x = 1012, ch_y = 18, ch_width = 1000, ch_height = 10,
          ch_xoff = 0, ch_yoff = 0, ch_advance = 1001\<rparr>"
    by (simp add: rect_overlap_def)
  have c: "glyph_atlas_create (good_env wide_font 1500 173) ''wide.ttf'' 3000 (Some [65])
        GLYPH_ENCODING_ASCII False
     = Some (Inr \<lparr>image = \<lparr>img_width = 2048, img_height = 2048, img_data = True\<rparr>,
        chars = Some
          [\<lparr>codepoint = 65, ch_x = 4, ch_y = 8, ch_width = 3000, ch_height = 10,
             ch_xoff = 0, ch_yoff = 10, ch_advance = 3001\<rparr>],
        num_chars = 1, pixel_height = 3000\<rparr>)"
    by code_simp
  have d: "\<not> rect_inside \<lparr>img_width = 2048, img_height = 2048, img_data = True\<rparr>
        \<lparr>codepoint = 65, ch_x = 4, ch_y = 8, ch_width = 3000, ch_height = 10,
          ch_xoff = 0, ch_yoff = 10, ch_advance = 3001\<rparr>"
    by (simp add: rect_inside_def)
  from a b c d show ?thesis by (intro conjI)
qed

text \<open>
  Claim C2 (the code departs from it). The ASCII font has no glyph for U+00E9. The entry
  for it has width 0 and \<open>glyph_atlas_find_char\<close> finds it, but its \<open>advance\<close> is the
  stale content of the array, 12345, not \<^verbatim>\<open>(int)(pixel_height * 0.5f) = 8\<close>: the fallback
  value is stored in \<^verbatim>\<open>temp_glyphs[i].advance\<close> only.
\<close>

theorem missing_glyph_advance_uninitialised:
  "glyph_atlas_create (good_env ascii_font 8 0) ''font.ttf'' 16 (Some [0xE9])
      GLYPH_ENCODING_ASCII False
   = Some (Inr \<lparr>image = \<lparr>img_width = 2048, img_height = 2048, img_data = True\<rparr>,
        chars = Some
          [\<lparr>codepoint = 0xE9, ch_x = 0, ch_y = 0, ch_width = 0, ch_height = 0,
             ch_xoff = 0, ch_yoff = 0, ch_advance = 12345\<rparr>],
        num_chars = 1, pixel_height = 16\<rparr>)
   \<and> find_glyph_index ascii_font 0xE9 = 0
   \<and> half_pixel_height (good_env ascii_font 8 0) = 8
   \<and> glyph_atlas_find_char
        (Some \<lparr>image = \<lparr>img_width = 2048, img_height = 2048, img_data = True\<rparr>,
           chars = Some
             [\<lparr>codepoint = 0xE9, ch_x = 0, ch_y = 0, ch_width = 0, ch_height = 0,
                ch_xoff = 0, ch_yoff = 0, ch_advance = 12345\<rparr>],
           num_chars = 1, pixel_height = 16\<rparr>) 0xE9
     = Inr (Some 0)"
proof -
  have a: "glyph_atlas_create (good_env ascii_font 8 0) ''font.ttf'' 16 (Some [0xE9])
      GLYPH_ENCODING_ASCII False
   = Some (Inr \<lparr>image = \<lparr>img_width = 2048, img_height = 2048, img_data = True\<rparr>,
        chars = Some
          [\<lparr>codepoint = 0xE9, ch_x = 0, ch_y = 0, ch_width = 0, ch_height = 0,
             ch_xoff = 0, ch_yoff = 0, ch_advance = 12345\<rparr>],
        num_chars = 1, pixel_height = 16\<rparr>)"
    by code_simp
  have b: "find_glyph_index ascii_font 0xE9 = 0"
    by (simp add: ascii_font_def)
  have c: "half_pixel_height (good_env ascii_font 8 0) = 8"
    by (simp add: good_env_def)
  have d: "glyph_atlas_find_char
        (Some \<lparr>image = \<lparr>img_width = 2048, img_height = 2048, img_data = True\<rparr>,
           chars = Some
             [\<lparr>codepoint = 0xE9, ch_x = 0, ch_y = 0, ch_width = 0, ch_height = 0,
                ch_xoff = 0, ch_yoff = 0, ch_advance = 12345\<rparr>],
           num_chars = 1, pixel_height = 16\<rparr>) 0xE9
     = Inr (Some 0)"
    by (simp add: glyph_atlas_find_char_def find_char_loop.simps)
  from a b c d show ?thesis by (intro conjI)
qed

text \<open>
  Claim C3, as stated, fails: the charset \<^verbatim>\<open>"aa"\<close> has one distinct codepoint and the
  atlas has two entries, in either encoding.
  (\<^verbatim>\<open>(int)sqrtf(28 * 12)\<close> is 18.)
\<close>

theorem num_chars_counts_duplicates_counterexample:
  "glyph_atlas_create (good_env ascii_font 8 18) ''font.ttf'' 16 (Some [0x61, 0x61])
      GLYPH_ENCODING_UTF8 False
   = Some (Inr \<lparr>image = \<lparr>img_width = 2048, img_height = 2048, img_data = True\<rparr>,
        chars = Some
          [\<lparr>codepoint = 0x61, ch_x = 4, ch_y = 4, ch_width = 10, ch_height = 12,
             ch_xoff = 1, ch_yoff = 12, ch_advance = 11\<rparr>,
           \<lparr>codepoint = 0x61, ch_x = 22, ch_y = 4, ch_width = 10, ch_height = 12,
             ch_xoff = 1, ch_yoff = 12, ch_advance = 11\<rparr>],
        num_chars = 2, pixel_height = 16\<rparr>)
   \<and> charset_codepoints GLYPH_ENCODING_UTF8 [0x61, 0x61] = Inr [0x61, 0x61]
   \<and> card (set [0x61 :: int, 0x61]) = 1
   \<and> (2 :: int) \<noteq> int (card (set [0x61 :: int, 0x61]))"
proof -
  have a: "glyph_atlas_create (good_env ascii_font 8 18) ''font.ttf'' 16 (Some [0x61, 0x61])
      GLYPH_ENCODING_UTF8 False
   = Some (Inr \<lparr>image = \<lparr>img_width = 2048, img_height = 2048, img_data = True\<rparr>,
        chars = Some
          [\<lparr>codepoint = 0x61, ch_x = 4, ch_y = 4, ch_width = 10, ch_height = 12,
             ch_xoff = 1, ch_yoff = 12, ch_advance = 11\<rparr>,
           \<lparr>codepoint = 0x61, ch_x = 22, ch_y = 4, ch_width = 10, ch_height = 12,
             ch_xoff = 1, ch_yoff = 12, ch_advance = 11\<rparr>],
        num_chars = 2, pixel_height = 16\<rparr>)"
    by code_simp
  have b: "charset_codepoints GLYPH_ENCODING_UTF8 [0x61, 0x61] = Inr [0x61, 0x61]"
    by code_simp
  have c: "card (set [0x61 :: int, 0x61]) = 1"
    by simp
  have d: "(2 :: int) \<noteq> int (card (set [0x61 :: int, 0x61]))"
    by simp
  from a b c d show ?thesis by (intro conjI)
qed

text \<open>
  Claim C3, amended. When the font loads and the call returns an atlas, \<open>num_chars\<close> is
  the number of codepoints decoded from the charset, each occurrence counted, and the
  \<^verbatim>\<open>chars\<close> array, unless it is NULL after a failed allocation, has that many entries.
\<close>

theorem num_chars_counts_every_codepoint:
  assumes "load_font env font_path \<noteq> None"
    and "glyph_atlas_create env font_path ph charset char_type use_sdf = Some (Inr atlas)"
  shows "\<exists>cps. charset_codepoints char_type
              (case charset of None \<Rightarrow> default_charset | Some cs \<Rightarrow> cs) = Inr cps
           \<and> num_chars atlas = int (length cps)
           \<and> (case chars atlas of None \<Rightarrow> True | Some cs \<Rightarrow> length cs = length cps)"
proof -
  let ?cs = "case charset of None \<Rightarrow> default_charset | Some cs \<Rightarrow> cs"
  from assms obtain n where n: "count_charset char_type ?cs = Inr n" and nc: "num_chars atlas = int n"
    by (auto simp: glyph_atlas_create_def Let_def
        split: option.splits sum.splits if_splits prod.splits)
  from glyph_atlas_create_wf [OF assms(2)] nc
  have "case chars atlas of None \<Rightarrow> True | Some cs \<Rightarrow> length cs = n"
    by (simp add: atlas_wf_def split: option.splits)
  with count_charset_codepoints [OF n] nc show ?thesis by auto
qed

theorem num_chars_counts_every_codepoint_witness:
  "load_font (good_env ascii_font 8 18) ''font.ttf'' \<noteq> None
   \<and> (\<exists>cps. charset_codepoints GLYPH_ENCODING_UTF8 [0x61, 0x61] = Inr cps
         \<and> (2::int) = int (length cps))"
proof -
  have l: "load_font (good_env ascii_font 8 18) ''font.ttf'' \<noteq> None"
    by (simp add: good_env_def)
  have a: "glyph_atlas_create (good_env ascii_font 8 18) ''font.ttf'' 16 (Some [0x61, 0x61])
      GLYPH_ENCODING_UTF8 False
   = Some (Inr \<lparr>image = \<lparr>img_width = 2048, img_height = 2048, img_data = True\<rparr>,
        chars = Some
          [\<lparr>codepoint = 0x61, ch_x = 4, ch_y = 4, ch_width = 10, ch_height = 12,
             ch_xoff = 1, ch_yoff = 12, ch_advance = 11\<rparr>,
           \<lparr>codepoint = 0x61, ch_x = 22, ch_y = 4, ch_width = 10, ch_height = 12,
             ch_xoff = 1, ch_yoff = 12, ch_advance = 11\<rparr>],
        num_chars = 2, pixel_height = 16\<rparr>)"
    by code_simp
  from num_chars_counts_every_codepoint [OF l a] l show ?thesis by auto
qed

text \<open>
  Claim C4 (the code departs from it). When one of the three checked allocations fails, the
  structure returned has \<^verbatim>\<open>chars = NULL\<close> and an empty image, but \<open>num_chars\<close> and
  \<open>pixel_height\<close> keep the values assigned before the allocation: for the charset
  \<^verbatim>\<open>"ab"\<close> at pixel height 16 they are 2 and 16, so the result is not the zero-initialised
  structure that the function's comment promises. When the font does not load, it is.
\<close>

theorem allocation_failure_result_not_zero:
  "glyph_atlas_create ((good_env ascii_font 8 18)\<lparr>malloc_chars_ok := False\<rparr>) ''font.ttf'' 16
      (Some [0x61, 0x62]) GLYPH_ENCODING_ASCII False
   = Some (Inr \<lparr>image = zero_image, chars = None, num_chars = 2, pixel_height = 16\<rparr>)
   \<and> glyph_atlas_create ((good_env ascii_font 8 18)\<lparr>malloc_temp_glyphs_ok := False\<rparr>) ''font.ttf'' 16
      (Some [0x61, 0x62]) GLYPH_ENCODING_ASCII False
   = Some (Inr \<lparr>image = zero_image, chars = None, num_chars = 2, pixel_height = 16\<rparr>)
   \<and> glyph_atlas_create ((good_env ascii_font 8 18)\<lparr>malloc_glyph_order_ok := False\<rparr>) ''font.ttf'' 16
      (Some [0x61, 0x62]) GLYPH_ENCODING_ASCII False
   = Some (Inr \<lparr>image = zero_image, chars = None, num_chars = 2, pixel_height = 16\<rparr>)
   \<and> \<lparr>image = zero_image, chars = None, num_chars = 2, pixel_height = 16\<rparr> \<noteq> zero_atlas
   \<and> glyph_atlas_create ((good_env ascii_font 8 18)\<lparr>load_font := (\<lambda>path. None)\<rparr>) ''font.ttf'' 16
      (Some [0x61, 0x62]) GLYPH_ENCODING_ASCII False
   = Some (Inr zero_atlas)"
proof -
  have a: "glyph_atlas_create ((good_env ascii_font 8 18)\<lparr>malloc_chars_ok := False\<rparr>) ''font.ttf'' 16
      (Some [0x61, 0x62]) GLYPH_ENCODING_ASCII False
   = Some (Inr \<lparr>image = zero_image, chars = None, num_chars = 2, pixel_height = 16\<rparr>)"
    by (simp add: glyph_atlas_create_def good_env_def count_charset_def zero_atlas_def)
  have b: "glyph_atlas_create ((good_env ascii_font 8 18)\<lparr>malloc_temp_glyphs_ok := False\<rparr>) ''font.ttf'' 16
      (Some [0x61, 0x62]) GLYPH_ENCODING_ASCII False
   = Some (Inr \<lparr>image = zero_image, chars = None, num_chars = 2, pixel_height = 16\<rparr>)"
    by (simp add: glyph_atlas_create_def good_env_def count_charset_def zero_atlas_def)
  have c: "glyph_atlas_create ((good_env ascii_font 8 18)\<lparr>malloc_glyph_order_ok := False\<rparr>) ''font.ttf'' 16
      (Some [0x61, 0x62]) GLYPH_ENCODING_ASCII False
   = Some (Inr \<lparr>image = zero_image, chars = None, num_chars = 2, pixel_height = 16\<rparr>)"
    by code_simp
  have d: "\<lparr>image = zero_image, chars = None, num_chars = 2, pixel_height = 16\<rparr> \<noteq> zero_atlas"
    by (simp add: zero_atlas_def)
  have e: "glyph_atlas_create ((good_env ascii_font 8 18)\<lparr>load_font := (\<lambda>path. None)\<rparr>) ''font.ttf'' 16
      (Some [0x61, 0x62]) GLYPH_ENCODING_ASCII False
   = Some (Inr zero_atlas)"
    by (simp add: glyph_atlas_create_def good_env_def)
  from a b c d e show ?thesis by (intro conjI)
qed


subsection \<open>Growing the atlas\<close>

text \<open>
  A font whose single glyph, for the vertical bar, is 10 pixels wide and as high as the
  font is made for.
\<close>

definition bar_font :: "int \<Rightarrow> glyph_font_t" where
  "bar_font h =
     \<lparr>find_glyph_index = (\<lambda>cp. if cp = 0x7C then 1 else 0),
      get_glyph_bitmap = (\<lambda>g. \<lparr>bm_data = True, bm_width = 10, bm_height = h, bm_xoff = 0, bm_yoff = h\<rparr>),
      sdf_bitmap_ok = (\<lambda>g. True),
      scaled_advance = (\<lambda>g. 11)\<rparr>"

text \<open>
  A font with two glyphs of 10 by 2040 pixels, for the letters a and b; the first sits 100
  pixels higher over the baseline than the second.
\<close>

definition two_bar_font :: glyph_font_t where
  "two_bar_font =
     \<lparr>find_glyph_index = (\<lambda>cp. if cp = 0x61 then 1 else if cp = 0x62 then 2 else 0),
      get_glyph_bitmap = (\<lambda>g. \<lparr>bm_data = True, bm_width = 10, bm_height = 2040, bm_xoff = 0,
                                bm_yoff = (if g = 1 then 100 else 0)\<rparr>),
      sdf_bitmap_ok = (\<lambda>g. True),
      scaled_advance = (\<lambda>g. 11)\<rparr>"

text \<open>
  Claim C5 (the code departs from it). A glyph that fails the vertical fit test makes the
  loop double both dimensions, create and clear a new image and restart at the first glyph
  of the order: a glyph 3000 pixels high is placed after one doubling, in an atlas of 4096
  by 4096 pixels. But growing does not always end in a complete packing. For a glyph
  17000 pixels high the atlas goes from 2048 to 4096, 8192 and 16384 pixels, and the next
  doubling, to 32768, computes the number of bytes to clear as the \<^verbatim>\<open>int\<close> product
  \<open>32768 * 32768 * 3 = 3221225472\<close>, which is more than \<open>INT_MAX = 2147483647\<close>: the call
  runs into signed overflow and returns no packing.
  (\<^verbatim>\<open>(int)sqrtf(14 * 3000)\<close> is 204 and \<^verbatim>\<open>(int)sqrtf(14 * 17000)\<close> is 487.)
\<close>

theorem grow_and_restart_ends_in_overflow:
  "glyph_atlas_create (good_env (bar_font 3000) 1500 204) ''bar.ttf'' 3000 (Some [0x7C])
     GLYPH_ENCODING_ASCII False
   = Some (Inr \<lparr>image = \<lparr>img_width = 4096, img_height = 4096, img_data = True\<rparr>,
        chars = Some [\<lparr>codepoint = 0x7C, ch_x = 4, ch_y = 4, ch_width = 10, ch_height = 3000,
                        ch_xoff = 0, ch_yoff = 3000, ch_advance = 11\<rparr>],
        num_chars = 1, pixel_height = 3000\<rparr>)
   \<and> glyph_atlas_create (good_env (bar_font 17000) 8500 487) ''bar.ttf'' 17000 (Some [0x7C])
       GLYPH_ENCODING_ASCII False
     = Some (Inl SignedOverflow)
   \<and> \<not> int_overflow (16384 * 16384 * 3) \<and> int_overflow (32768 * 32768 * 3)"
proof -
  have a: "glyph_atlas_create (good_env (bar_font 3000) 1500 204) ''bar.ttf'' 3000 (Some [0x7C])
     GLYPH_ENCODING_ASCII False
   = Some (Inr \<lparr>image = \<lparr>img_width = 4096, img_height = 4096, img_data = True\<rparr>,
        chars = Some [\<lparr>codepoint = 0x7C, ch_x = 4, ch_y = 4, ch_width = 10, ch_height = 3000,
                        ch_xoff = 0, ch_yoff = 3000, ch_advance = 11\<rparr>],
        num_chars = 1, pixel_height = 3000\<rparr>)"
    by code_simp
  have b: "glyph_atlas_create (good_env (bar_font 17000) 8500 487) ''bar.ttf'' 17000 (Some [0x7C])
       GLYPH_ENCODING_ASCII False
     = Some (Inl SignedOverflow)"
    by code_simp
  have c: "\<not> int_overflow (16384 * 16384 * 3) \<and> int_overflow (32768 * 32768 * 3)"
    by (simp add: int_overflow_def INT_MAX_def INT_MIN_def)
  from a b c show ?thesis by simp
qed

text \<open>
  The writes of the source that nothing checks. The vertical fit test looks at the row
  before its glyphs are aligned: the two glyphs of 2040 pixels fit the 2048 pixel atlas in
  one row at row 4, and aligning the baselines then copies the second one 100 rows lower,
  to the rows 104 to 2143 of an image with 2048 rows. And when the image has no buffer,
  or the \<^verbatim>\<open>current_row\<close> array was not allocated, the first write goes through a NULL
  pointer. (\<^verbatim>\<open>(int)sqrtf(28 * 2040)\<close> is 238 and \<^verbatim>\<open>(int)sqrtf(14 * 12)\<close> is 12.)
\<close>

lemma unchecked_writes_fault:
  "glyph_atlas_create (good_env two_bar_font 1020 238) ''bars.ttf'' 2040 (Some [0x61, 0x62])
     GLYPH_ENCODING_ASCII False
   = Some (Inl OutOfBoundsWrite)"
  "glyph_atlas_create ((good_env ascii_font 8 12)\<lparr>image_data_ok := (\<lambda>w h. False)\<rparr>) ''font.ttf'' 16
     (Some [0x61]) GLYPH_ENCODING_ASCII False
   = Some (Inl NullPointerWrite)"
  "glyph_atlas_create ((good_env ascii_font 8 12)\<lparr>malloc_current_row_ok := False\<rparr>) ''font.ttf'' 16
     (Some [0x61]) GLYPH_ENCODING_ASCII False
   = Some (Inl NullPointerWrite)"
  by code_simp+

end
